theory Spec2Isabelle
  imports Main "HOL-Library.Word"
begin

unbundle bit_operations_syntax

section \<open>Data model of muxing.c\<close>

type_synonym byte = "8 word"

text \<open>A \<^verbatim>\<open>char buf[1024*50]\<close> on the stack, read by offset. Offsets at or beyond
  \<open>buf_size\<close> are outside the array.\<close>
type_synonym buffer = "nat \<Rightarrow> byte"

definition buf_size :: nat where
  "buf_size = 1024 * 50"

text \<open>The directory the two writers read from: \<open>None\<close> is a name that \<^verbatim>\<open>fopen\<close>
  cannot open.\<close>
type_synonym files = "string \<Rightarrow> byte list option"

datatype AVMediaType = AVMEDIA_TYPE_VIDEO | AVMEDIA_TYPE_AUDIO

datatype AVCodecID =
  AV_CODEC_ID_NONE | AV_CODEC_ID_MPEG1VIDEO | AV_CODEC_ID_MPEG2VIDEO
  | AV_CODEC_ID_H264 | AV_CODEC_ID_AAC

record AVRational =
  num :: int
  den :: int

text \<open>The fields of \<^verbatim>\<open>AVCodec\<close> that \<^verbatim>\<open>add_stream\<close> reads. A zero-terminated C array
  is the list of its entries before the terminator; \<open>None\<close> is the NULL pointer.\<close>
record AVCodec =
  codec_type :: AVMediaType
  codec_id :: AVCodecID
  supported_samplerates :: "int list option"

record AVCodecContext =
  ctx_codec_id :: AVCodecID
  bit_rate :: int
  sample_rate :: int
  width :: int
  height :: int
  ctx_time_base :: AVRational
  gop_size :: int
  max_b_frames :: int
  mb_decision :: int
  global_header :: bool

text \<open>The fields of \<^verbatim>\<open>AVStream\<close> the program touches. \<open>kind\<close> stands for
  \<^verbatim>\<open>st->codec->codec_type\<close>, which the library takes from the codec descriptor the stream
  is created with.\<close>
record AVStream =
  index :: int
  stream_id :: int
  time_base :: AVRational
  kind :: AVMediaType
  codec :: AVCodecContext

record AVPacket =
  pts :: "64 word"
  dts :: "64 word"
  stream_index :: int
  flags :: "32 word"
  size :: int
  data :: "byte list"

record timeval =
  tv_sec :: "64 word"
  tv_usec :: "64 word"

text \<open>What the process does to the outside, in program order. \<open>Submit\<close> is the call of
  \<^verbatim>\<open>av_interleaved_write_frame\<close> made by \<^verbatim>\<open>write_frame\<close>: the kind of the stream
  handed to \<^verbatim>\<open>write_frame\<close>, the packet, and the status the call returned.
  \<open>Fopen\<close> carries the file name and whether the file could be opened, \<open>Stderr\<close>
  the fixed part of a diagnostic (without the library's error string).\<close>
datatype event =
    NewStream AVMediaType int
  | AvioOpen int
  | WriteHeader int
  | SetAnchor "64 word"
  | Fopen string bool
  | Submit AVMediaType AVPacket int
  | Usleep
  | WriteTrailer
  | AvioClose
  | FreeContext
  | Stderr string

text \<open>A C function of this program either returns a value, calls \<^verbatim>\<open>exit\<close>, or leaves
  defined behaviour (a NULL or dangling stream pointer, a file longer than the buffer it
  is read into).\<close>
datatype 'a res = Ret 'a | Exit int | Fault

text \<open>\<^verbatim>\<open>OutputStream\<close> wraps a pointer to a stream owned by the format context: here the
  position of the stream in \<open>streams\<close>, \<open>None\<close> for NULL.\<close>
type_synonym OutputStream = "nat option"

text \<open>The mutable state: the global \<^verbatim>\<open>begin_timestamp_us\<close>, the two function-local
  statics (\<^verbatim>\<open>static int pts\<close> of \<^verbatim>\<open>write_video_frame\<close>, \<^verbatim>\<open>static audio_frame\<close> of
  \<^verbatim>\<open>write_audio_frame\<close>), the streams of the format context (\<^verbatim>\<open>oc->streams\<close>, with
  \<^verbatim>\<open>oc->nb_streams\<close> their number) and the events so far. The two counters are C
  \<^verbatim>\<open>int\<close>s that only ever count files up from 0; they are unbounded integers here.\<close>
record mux_state =
  begin_timestamp_us :: "64 word"
  video_pts :: int
  audio_frame :: int
  streams :: "AVStream list"
  trace :: "event list"

text \<open>What the environment presents during one iteration of the loop of \<^verbatim>\<open>main\<close>: the
  clock readings, the files at the moment of each \<^verbatim>\<open>fopen\<close>, the status of each
  \<^verbatim>\<open>av_interleaved_write_frame\<close>, and the indeterminate values of the locals that are
  read before being written (\<^verbatim>\<open>buf\<close> in both writers, \<^verbatim>\<open>ret\<close> in
  \<^verbatim>\<open>write_video_frame\<close>, \<^verbatim>\<open>frame\<close> in \<^verbatim>\<open>write_audio_frame\<close>).\<close>
record tick =
  v_clock :: timeval
  v_files :: files
  v_buf :: buffer
  v_ret :: int
  v_write :: int
  a_files :: files
  a_buf :: buffer
  a_clock :: timeval
  a_frame :: bool
  a_write :: int

section \<open>File names\<close>

definition digit_char :: "nat \<Rightarrow> char" where
  "digit_char d = ''0123456789'' ! d"

fun dec :: "nat \<Rightarrow> string" where
  "dec n = (if n < 10 then [digit_char n] else dec (n div 10) @ [digit_char (n mod 10)])"

declare dec.simps [simp del]

text \<open>\<^verbatim>\<open>%03d\<close>: at least three characters, padded with zeros after the sign.\<close>
definition fmt_03d :: "int \<Rightarrow> string" where
  "fmt_03d n =
     (if n < 0 then CHR ''-'' # replicate (2 - length (dec (nat (- n)))) CHR ''0'' @ dec (nat (- n))
      else replicate (3 - length (dec (nat n))) CHR ''0'' @ dec (nat n))"

text \<open>\<^verbatim>\<open>snprintf(filename, 256, ...)\<close> keeps at most 255 characters.\<close>
definition video_filename :: "int \<Rightarrow> string" where
  "video_filename n = take 255 (''avc_raw/avc_raw_'' @ fmt_03d n @ ''.h264'')"

definition audio_filename :: "int \<Rightarrow> string" where
  "audio_filename n = take 255 (''./aac_raw/aac_raw_'' @ fmt_03d n @ ''.aac'')"

section \<open>Clock and packets\<close>

text \<open>\<^verbatim>\<open>now.tv_sec*1000000LL + now.tv_usec\<close>, in 64-bit arithmetic.\<close>
definition now_us :: "timeval \<Rightarrow> 64 word" where
  "now_us now = tv_sec now * 1000000 + tv_usec now"

definition AV_PKT_FLAG_KEY :: "32 word" where
  "AV_PKT_FLAG_KEY = 1"

definition AV_NOPTS_VALUE :: "64 word" where
  "AV_NOPTS_VALUE = 0x8000000000000000"

text \<open>\<^verbatim>\<open>AVPacket pkt = { 0 }; av_init_packet(&pkt);\<close>\<close>
definition av_init_packet :: AVPacket where
  "av_init_packet =
     \<lparr>pts = AV_NOPTS_VALUE, dts = AV_NOPTS_VALUE, stream_index = 0, flags = 0, size = 0,
      data = []\<rparr>"

text \<open>\<^verbatim>\<open>fread(buf, 1, len, f)\<close> of a file that fits: the first \<open>len\<close> bytes of the buffer
  are the file, the rest keep what they held.\<close>
definition fread :: "buffer \<Rightarrow> byte list \<Rightarrow> buffer" where
  "fread buf content = (\<lambda>i. if i < length content then content ! i else buf i)"

text \<open>The payload of a packet: \<^verbatim>\<open>pkt.data = buf; pkt.size = len;\<close>\<close>
definition payload :: "buffer \<Rightarrow> nat \<Rightarrow> byte list" where
  "payload buf len = map buf [0..<len]"

definition emit :: "event list \<Rightarrow> mux_state \<Rightarrow> mux_state" where
  "emit evs s = s\<lparr>trace := trace s @ evs\<rparr>"

text \<open>\<^verbatim>\<open>write_frame\<close>: the rescaling call is commented out in the source, so the packet
  goes to \<^verbatim>\<open>av_interleaved_write_frame\<close> with the time stamps it came with; only
  \<^verbatim>\<open>stream_index\<close> is set. \<open>status\<close> is what the library call returns.\<close>
definition write_frame :: "AVStream \<Rightarrow> AVPacket \<Rightarrow> int \<Rightarrow> mux_state \<Rightarrow> int \<times> mux_state" where
  "write_frame st pkt status s =
     (status, emit [Submit (kind st) (pkt\<lparr>stream_index := index st\<rparr>) status] s)"

text \<open>\<^verbatim>\<open>int nal_type = buf[4] & 0x0f; ... if(nal_type == 0x7)\<close>: the \<^verbatim>\<open>char\<close> is
  promoted to \<^verbatim>\<open>int\<close> before the mask.\<close>
definition nal_type :: "buffer \<Rightarrow> 32 word" where
  "nal_type buf = scast (buf 4) AND 0x0f"

definition is_IDR_nal :: "buffer \<Rightarrow> bool" where
  "is_IDR_nal buf = (nal_type buf = 0x7)"

section \<open>The two writers\<close>

definition deref :: "mux_state \<Rightarrow> OutputStream \<Rightarrow> AVStream option" where
  "deref s ost =
     (case ost of None \<Rightarrow> None
      | Some p \<Rightarrow> if p < length (streams s) then Some (streams s ! p) else None)"

definition write_video_frame :: "OutputStream \<Rightarrow> tick \<Rightarrow> mux_state \<Rightarrow> int res \<times> mux_state" where
  "write_video_frame ost tk s =
     (case deref s ost of
        None \<Rightarrow> (Fault, s)
      | Some st \<Rightarrow>
          let timestamp_us = now_us (v_clock tk) - begin_timestamp_us s;
              filename = video_filename (video_pts s)
          in (case v_files tk filename of
               None \<Rightarrow> (Ret 1, emit [Fopen filename False] s)
             | Some content \<Rightarrow>
                 let len = length content in
                 if buf_size < len then (Fault, emit [Fopen filename True] s)
                 else
                   let buf = fread (v_buf tk) content;
                       pkt0 = av_init_packet;
                       pkt1 = (if is_IDR_nal buf
                               then pkt0\<lparr>flags := flags pkt0 OR AV_PKT_FLAG_KEY\<rparr> else pkt0);
                       pkt2 = pkt1\<lparr>stream_index := index st, data := payload buf len,
                                   size := int len, pts := timestamp_us, dts := timestamp_us\<rparr>;
                       s1 = (emit [Fopen filename True] s)\<lparr>video_pts := video_pts s + 1\<rparr>;
                       s2 = snd (write_frame st pkt2 (v_write tk) s1)
                   in if v_ret tk < 0
                      then (Exit 1, emit [Stderr ''Error while writing video frame''] s2)
                      else (Ret 0, s2)))"

definition write_audio_frame :: "OutputStream \<Rightarrow> tick \<Rightarrow> mux_state \<Rightarrow> int res \<times> mux_state" where
  "write_audio_frame ost tk s =
     (case deref s ost of
        None \<Rightarrow> (Fault, s)
      | Some st \<Rightarrow>
          let filename = audio_filename (audio_frame s)
          in (case a_files tk filename of
               None \<Rightarrow> (Ret 1, emit [Fopen filename False] s)
             | Some content \<Rightarrow>
                 let len = length content in
                 if buf_size < len then (Fault, emit [Fopen filename True] s)
                 else
                   let buf = fread (a_buf tk) content;
                       timestamp_us = now_us (a_clock tk) - begin_timestamp_us s;
                       pkt = av_init_packet\<lparr>stream_index := index st, pts := timestamp_us,
                                            dts := timestamp_us, size := int len,
                                            data := payload buf len\<rparr>;
                       got_packet = True;
                       s1 = (emit [Fopen filename True] s)\<lparr>audio_frame := audio_frame s + 1\<rparr>;
                       (ret, s2) = write_frame st pkt (a_write tk) s1
                   in if ret < 0
                      then (Exit 1, emit [Stderr ''Error while writing audio frame''] s2)
                      else (Ret (if a_frame tk \<or> got_packet then 0 else 1), s2)))"

section \<open>Registering a stream: \<^verbatim>\<open>add_stream\<close>\<close>

text \<open>Sequencing of calls that may end the process.\<close>
definition then_do ::
  "'a res \<times> mux_state \<Rightarrow> ('a \<Rightarrow> mux_state \<Rightarrow> 'b res \<times> mux_state) \<Rightarrow> 'b res \<times> mux_state" where
  "then_do m f =
     (case m of (Ret x, s) \<Rightarrow> f x s | (Exit c, s) \<Rightarrow> (Exit c, s) | (Fault, s) \<Rightarrow> (Fault, s))"

definition STREAM_FRAME_RATE :: int where
  "STREAM_FRAME_RATE = 1000 * 1000"

text \<open>The two stand-in codec descriptors of \<^verbatim>\<open>add_stream\<close>; the fields their
  initialisers leave out are NULL.\<close>
definition ff_fakeh264_encoder :: AVCodec where
  "ff_fakeh264_encoder =
     \<lparr>codec_type = AVMEDIA_TYPE_VIDEO, codec_id = AV_CODEC_ID_H264,
      supported_samplerates = None\<rparr>"

definition ff_fake_amrnb_encoder :: AVCodec where
  "ff_fake_amrnb_encoder =
     \<lparr>codec_type = AVMEDIA_TYPE_AUDIO, codec_id = AV_CODEC_ID_AAC,
      supported_samplerates = None\<rparr>"

text \<open>Modelled from the spec: \<^verbatim>\<open>avformat_new_stream\<close> belongs to libavformat and is not
  in the source file. The spec's registry assigns a \<open>container_index\<close> at registration,
  once, dense starting at 0: the new stream is appended to the streams of the context and
  its index is the number of streams before the call. The other fields start at zero; the
  first argument says whether the allocation succeeded (NULL otherwise).\<close>
definition avformat_new_stream :: "bool \<Rightarrow> AVCodec \<Rightarrow> mux_state \<Rightarrow> OutputStream \<times> mux_state" where
  "avformat_new_stream ok c s =
     (if ok
      then (Some (length (streams s)),
            emit [NewStream (codec_type c) (int (length (streams s)))]
              (s\<lparr>streams := streams s @
                 [\<lparr>index = int (length (streams s)), stream_id = 0,
                   time_base = \<lparr>num = 0, den = 0\<rparr>, kind = codec_type c,
                   codec = \<lparr>ctx_codec_id = AV_CODEC_ID_NONE, bit_rate = 0, sample_rate = 0,
                            width = 0, height = 0, ctx_time_base = \<lparr>num = 0, den = 0\<rparr>,
                            gop_size = 0, max_b_frames = 0, mb_decision = 0,
                            global_header = False\<rparr>\<rparr>]\<rparr>))
      else (None, s))"

text \<open>The sample rate chosen for an audio stream: 44100, unless the codec lists its
  rates; then the first listed (the terminator 0 when the list is empty), or 44100 when
  it is listed.\<close>
definition choose_sample_rate :: "AVCodec \<Rightarrow> int" where
  "choose_sample_rate c =
     (case supported_samplerates c of
        None \<Rightarrow> 44100
      | Some rs \<Rightarrow> if 44100 \<in> set rs then 44100 else (case rs of [] \<Rightarrow> 0 | r # _ \<Rightarrow> r))"

text \<open>\<^verbatim>\<open>add_stream\<close>. The second argument is the flag \<^verbatim>\<open>AVFMT_GLOBALHEADER\<close> of the output
  format. The sample format, the channel layout and the pixel format of the codec context
  are not part of the model.\<close>
definition add_stream ::
  "bool \<Rightarrow> bool \<Rightarrow> AVCodecID \<Rightarrow> mux_state \<Rightarrow> OutputStream res \<times> mux_state" where
  "add_stream new_ok globalheader cid s =
     (let c = (if cid = AV_CODEC_ID_H264 then ff_fakeh264_encoder else ff_fake_amrnb_encoder);
          (ost, s1) = avformat_new_stream new_ok c s
      in (case ost of
            None \<Rightarrow> (Exit 1, emit [Stderr ''Could not allocate stream''] s1)
          | Some p \<Rightarrow>
              let st = (streams s1 ! p)\<lparr>stream_id := int (length (streams s1)) - 1\<rparr>;
                  cc = codec st;
                  st1 = (case codec_type c of
                           AVMEDIA_TYPE_AUDIO \<Rightarrow>
                             let cc1 = cc\<lparr>bit_rate := 64000, sample_rate := choose_sample_rate c\<rparr>
                             in st\<lparr>time_base := \<lparr>num = 1, den = sample_rate cc1\<rparr>, codec := cc1\<rparr>
                         | AVMEDIA_TYPE_VIDEO \<Rightarrow>
                             let tb = \<lparr>num = 1, den = STREAM_FRAME_RATE\<rparr>;
                                 cc1 = cc\<lparr>ctx_codec_id := cid, bit_rate := 400000, width := 352,
                                          height := 288, ctx_time_base := tb, gop_size := 12\<rparr>;
                                 cc2 = (if ctx_codec_id cc1 = AV_CODEC_ID_MPEG2VIDEO
                                        then cc1\<lparr>max_b_frames := 2\<rparr> else cc1);
                                 cc3 = (if ctx_codec_id cc2 = AV_CODEC_ID_MPEG1VIDEO
                                        then cc2\<lparr>mb_decision := 2\<rparr> else cc2)
                             in st\<lparr>time_base := tb, codec := cc3\<rparr>);
                  st2 = (if globalheader
                         then st1\<lparr>codec := (codec st1)\<lparr>global_header := True\<rparr>\<rparr> else st1)
              in (Ret (Some p), s1\<lparr>streams := (streams s1)[p := st2]\<rparr>)))"

section \<open>\<^verbatim>\<open>main\<close>\<close>

text \<open>What the environment decides before the loop: the argument count, whether the
  context and the streams could be allocated, the two flags of the output format that
  \<^verbatim>\<open>main\<close> and \<^verbatim>\<open>add_stream\<close> test, the statuses of \<^verbatim>\<open>avio_open\<close> and
  \<^verbatim>\<open>avformat_write_header\<close>, and the clock reading taken after the header.\<close>
record environment =
  argc :: int
  alloc_ok :: bool
  video_stream_ok :: bool
  audio_stream_ok :: bool
  AVFMT_NOFILE :: bool
  AVFMT_GLOBALHEADER :: bool
  avio_open_ret :: int
  write_header_ret :: int
  start_clock :: timeval

record AVOutputFormat =
  video_codec :: AVCodecID
  audio_codec :: AVCodecID

text \<open>\<^verbatim>\<open>ff_mp4_muxer\<close> after \<^verbatim>\<open>main\<close> has overwritten its two codec fields.\<close>
definition ff_mp4_muxer :: AVOutputFormat where
  "ff_mp4_muxer = \<lparr>video_codec = AV_CODEC_ID_H264, audio_codec = AV_CODEC_ID_AAC\<rparr>"

definition init_state :: mux_state where
  "init_state =
     \<lparr>begin_timestamp_us = 0, video_pts = 0, audio_frame = 0, streams = [], trace = []\<rparr>"

text \<open>The two \<^verbatim>\<open>add_stream\<close> calls of \<^verbatim>\<open>main\<close>: the stream wrappers and the flags
  \<^verbatim>\<open>encode_video\<close>, \<^verbatim>\<open>encode_audio\<close>.\<close>
definition main_add_streams ::
  "environment \<Rightarrow> AVOutputFormat \<Rightarrow> mux_state
     \<Rightarrow> (OutputStream \<times> OutputStream \<times> bool \<times> bool) res \<times> mux_state" where
  "main_add_streams cfg fmt s =
     then_do
       (if video_codec fmt \<noteq> AV_CODEC_ID_NONE
        then then_do (add_stream (video_stream_ok cfg) (AVFMT_GLOBALHEADER cfg) (video_codec fmt) s)
               (\<lambda>ost s'. (Ret (ost, True), s'))
        else (Ret (None, False), s))
       (\<lambda>(video_st, encode_video) s1.
          then_do
            (if audio_codec fmt \<noteq> AV_CODEC_ID_NONE
             then then_do
                    (add_stream (audio_stream_ok cfg) (AVFMT_GLOBALHEADER cfg) (audio_codec fmt) s1)
                    (\<lambda>ost s'. (Ret (ost, True), s'))
             else (Ret (None, False), s1))
            (\<lambda>(audio_st, encode_audio) s2.
               (Ret (video_st, audio_st, encode_video, encode_audio), s2)))"

text \<open>The body of the \<^verbatim>\<open>while\<close> loop: both writers are called, then \<^verbatim>\<open>usleep\<close>. The
  result is the new pair (\<^verbatim>\<open>encode_video\<close>, \<^verbatim>\<open>encode_audio\<close>).\<close>
definition iteration ::
  "OutputStream \<Rightarrow> OutputStream \<Rightarrow> tick \<Rightarrow> mux_state \<Rightarrow> (bool \<times> bool) res \<times> mux_state" where
  "iteration video_st audio_st tk s =
     then_do (write_video_frame video_st tk s) (\<lambda>rv s1.
       then_do (write_audio_frame audio_st tk s1) (\<lambda>ra s2.
         (Ret (rv = 0, ra = 0), emit [Usleep] s2)))"

text \<open>\<^verbatim>\<open>while (encode_video || encode_audio) { ... }\<close> over the iterations the
  environment describes. \<open>None\<close>: the loop is still running when the list ends.\<close>
fun poll_loop ::
  "OutputStream \<Rightarrow> OutputStream \<Rightarrow> bool \<times> bool \<Rightarrow> tick list \<Rightarrow> mux_state
     \<Rightarrow> unit res option \<times> mux_state" where
  "poll_loop video_st audio_st (encode_video, encode_audio) [] s =
     (if encode_video \<or> encode_audio then (None, s) else (Some (Ret ()), s))"
| "poll_loop video_st audio_st (encode_video, encode_audio) (tk # ticks) s =
     (if encode_video \<or> encode_audio
      then (case iteration video_st audio_st tk s of
              (Ret fl, s') \<Rightarrow> poll_loop video_st audio_st fl ticks s'
            | (Exit c, s') \<Rightarrow> (Some (Exit c), s')
            | (Fault, s') \<Rightarrow> (Some Fault, s'))
      else (Some (Ret ()), s))"

text \<open>\<^verbatim>\<open>main\<close>. \<open>Some (Ret c)\<close>: \<^verbatim>\<open>main\<close> returned \<open>c\<close>; \<open>Some (Exit c)\<close>: a callee
  called \<^verbatim>\<open>exit(c)\<close>; \<open>None\<close>: still in the loop after the last described iteration.
  The state carries the events up to that point in each case. The handling of the
  \<^verbatim>\<open>-flags\<close> argument and the printing to standard output are left out.\<close>
definition main :: "environment \<Rightarrow> tick list \<Rightarrow> int res option \<times> mux_state" where
  "main cfg ticks =
     (if argc cfg < 2 then (Some (Ret 1), init_state)
      else if \<not> alloc_ok cfg then (Some (Ret 1), init_state)
      else
        (case main_add_streams cfg ff_mp4_muxer init_state of
           (Exit c, s1) \<Rightarrow> (Some (Exit c), s1)
         | (Fault, s1) \<Rightarrow> (Some Fault, s1)
         | (Ret (video_st, audio_st, encode_video, encode_audio), s1) \<Rightarrow>
             let s2 = (if \<not> AVFMT_NOFILE cfg then emit [AvioOpen (avio_open_ret cfg)] s1 else s1)
             in if \<not> AVFMT_NOFILE cfg \<and> avio_open_ret cfg < 0
                then (Some (Ret 1), emit [Stderr ''Could not open''] s2)
                else
                  let s3 = emit [WriteHeader (write_header_ret cfg)] s2
                  in if write_header_ret cfg < 0
                     then (Some (Ret 1),
                           emit [Stderr ''Error occurred when opening output file''] s3)
                     else
                       let s4 = emit [SetAnchor (now_us (start_clock cfg))]
                                  (s3\<lparr>begin_timestamp_us := now_us (start_clock cfg)\<rparr>)
                       in (case poll_loop video_st audio_st (encode_video, encode_audio) ticks s4 of
                             (None, s5) \<Rightarrow> (None, s5)
                           | (Some (Exit c), s5) \<Rightarrow> (Some (Exit c), s5)
                           | (Some Fault, s5) \<Rightarrow> (Some Fault, s5)
                           | (Some (Ret u), s5) \<Rightarrow>
                               let s6 = emit [WriteTrailer] s5;
                                   s7 = (if \<not> AVFMT_NOFILE cfg then emit [AvioClose] s6 else s6)
                               in (Some (Ret 0), emit [FreeContext] s7))))"

section \<open>Reading traces\<close>

text \<open>The packets the two writers build from a file that fits the buffer.\<close>
definition video_packet :: "AVStream \<Rightarrow> tick \<Rightarrow> mux_state \<Rightarrow> byte list \<Rightarrow> AVPacket" where
  "video_packet st tk s content =
     \<lparr>pts = now_us (v_clock tk) - begin_timestamp_us s,
      dts = now_us (v_clock tk) - begin_timestamp_us s,
      stream_index = index st,
      flags = (if is_IDR_nal (fread (v_buf tk) content) then AV_PKT_FLAG_KEY else 0),
      size = int (length content),
      data = payload (fread (v_buf tk) content) (length content)\<rparr>"

definition audio_packet :: "AVStream \<Rightarrow> tick \<Rightarrow> mux_state \<Rightarrow> byte list \<Rightarrow> AVPacket" where
  "audio_packet st tk s content =
     \<lparr>pts = now_us (a_clock tk) - begin_timestamp_us s,
      dts = now_us (a_clock tk) - begin_timestamp_us s,
      stream_index = index st,
      flags = 0,
      size = int (length content),
      data = payload (fread (a_buf tk) content) (length content)\<rparr>"

fun is_submit :: "event \<Rightarrow> bool" where
  "is_submit (Submit k p r) = True"
| "is_submit _ = False"

fun is_header :: "event \<Rightarrow> bool" where
  "is_header (WriteHeader h) = True"
| "is_header _ = False"

fun is_trailer :: "event \<Rightarrow> bool" where
  "is_trailer WriteTrailer = True"
| "is_trailer _ = False"

fun is_anchor :: "event \<Rightarrow> bool" where
  "is_anchor (SetAnchor b) = True"
| "is_anchor _ = False"

fun is_new_stream :: "event \<Rightarrow> bool" where
  "is_new_stream (NewStream k i) = True"
| "is_new_stream _ = False"

fun is_fopen :: "event \<Rightarrow> bool" where
  "is_fopen (Fopen f b) = True"
| "is_fopen _ = False"

text \<open>The events of the loop that are not submissions.\<close>
fun quiet :: "event \<Rightarrow> bool" where
  "quiet (Fopen f b) = True"
| "quiet Usleep = True"
| "quiet (Stderr m) = True"
| "quiet _ = False"

text \<open>\<open>submit_from b st clk w e\<close>: \<open>e\<close> is a submission for stream \<open>st\<close> whose two time
  stamps are the reading \<open>clk\<close> minus the anchor \<open>b\<close>, and whose status is \<open>w\<close>.\<close>
fun submit_from :: "64 word \<Rightarrow> AVStream option \<Rightarrow> timeval \<Rightarrow> int \<Rightarrow> event \<Rightarrow> bool" where
  "submit_from b (Some st) clk w (Submit k p r) =
     (k = kind st \<and> stream_index p = index st \<and> pts p = now_us clk - b
      \<and> dts p = now_us clk - b \<and> r = w)"
| "submit_from b sto clk w e = False"

definition video_event :: "64 word \<Rightarrow> AVStream option \<Rightarrow> tick \<Rightarrow> event \<Rightarrow> bool" where
  "video_event b sto tk e = (submit_from b sto (v_clock tk) (v_write tk) e \<or> quiet e)"

definition audio_event :: "64 word \<Rightarrow> AVStream option \<Rightarrow> tick \<Rightarrow> event \<Rightarrow> bool" where
  "audio_event b sto tk e = (submit_from b sto (a_clock tk) (a_write tk) e \<or> quiet e)"

definition tick_event ::
  "64 word \<Rightarrow> AVStream option \<Rightarrow> AVStream option \<Rightarrow> tick \<Rightarrow> event \<Rightarrow> bool" where
  "tick_event b vsto asto tk e = (video_event b vsto tk e \<or> audio_event b asto tk e)"

text \<open>The presentation time stamps of the packets submitted for streams of kind \<open>k\<close>, in
  the order of submission, read as the signed 64-bit values the packet holds.\<close>
fun stamp_of :: "AVMediaType \<Rightarrow> event \<Rightarrow> int list" where
  "stamp_of k (Submit k' p r) = (if k' = k then [sint (pts p)] else [])"
| "stamp_of k _ = []"

definition stamps :: "AVMediaType \<Rightarrow> event list \<Rightarrow> int list" where
  "stamps k tr = concat (map (stamp_of k) tr)"

text \<open>A clock reading as the number of microseconds it stands for. A reading is well
  formed when that number is not negative and fits the signed 64-bit type the source
  computes it in.\<close>
definition us_of :: "timeval \<Rightarrow> int" where
  "us_of tv = sint (tv_sec tv) * 1000000 + sint (tv_usec tv)"

definition clock_ok :: "timeval \<Rightarrow> bool" where
  "clock_ok tv = (0 \<le> us_of tv \<and> us_of tv < 2 ^ 63)"

text \<open>The readings one iteration can take, in the order the two writers take them.\<close>
definition readings :: "tick list \<Rightarrow> timeval list" where
  "readings ticks = concat (map (\<lambda>tk. [v_clock tk, a_clock tk]) ticks)"

text \<open>Successive readings, from the one that sets the anchor on, never decrease.\<close>
definition clock_monotone :: "timeval \<Rightarrow> tick list \<Rightarrow> bool" where
  "clock_monotone t0 ticks =
     (list_all clock_ok (t0 # readings ticks) \<and> sorted (map us_of (t0 # readings ticks)))"

text \<open>The run gets as far as a successful header write.\<close>
definition header_written :: "environment \<Rightarrow> bool" where
  "header_written cfg =
     (2 \<le> argc cfg \<and> alloc_ok cfg \<and> video_stream_ok cfg \<and> audio_stream_ok cfg
      \<and> (AVFMT_NOFILE cfg \<or> 0 \<le> avio_open_ret cfg) \<and> 0 \<le> write_header_ret cfg)"

text \<open>The two streams as \<^verbatim>\<open>add_stream\<close> leaves them, and the state after both calls.\<close>
definition video_stream :: "bool \<Rightarrow> AVStream" where
  "video_stream gh =
     \<lparr>index = 0, stream_id = 0, time_base = \<lparr>num = 1, den = 1000000\<rparr>,
      kind = AVMEDIA_TYPE_VIDEO,
      codec = \<lparr>ctx_codec_id = AV_CODEC_ID_H264, bit_rate = 400000, sample_rate = 0,
               width = 352, height = 288, ctx_time_base = \<lparr>num = 1, den = 1000000\<rparr>,
               gop_size = 12, max_b_frames = 0, mb_decision = 0, global_header = gh\<rparr>\<rparr>"

definition audio_stream :: "bool \<Rightarrow> AVStream" where
  "audio_stream gh =
     \<lparr>index = 1, stream_id = 1, time_base = \<lparr>num = 1, den = 44100\<rparr>,
      kind = AVMEDIA_TYPE_AUDIO,
      codec = \<lparr>ctx_codec_id = AV_CODEC_ID_NONE, bit_rate = 64000, sample_rate = 44100,
               width = 0, height = 0, ctx_time_base = \<lparr>num = 0, den = 0\<rparr>,
               gop_size = 0, max_b_frames = 0, mb_decision = 0, global_header = gh\<rparr>\<rparr>"

definition registered :: "environment \<Rightarrow> mux_state" where
  "registered cfg =
     \<lparr>begin_timestamp_us = 0, video_pts = 0, audio_frame = 0,
      streams = [video_stream (AVFMT_GLOBALHEADER cfg), audio_stream (AVFMT_GLOBALHEADER cfg)],
      trace = [NewStream AVMEDIA_TYPE_VIDEO 0, NewStream AVMEDIA_TYPE_AUDIO 1]\<rparr>"

text \<open>The events up to the assignment of the anchor, and the state the loop starts in.\<close>
definition prologue :: "environment \<Rightarrow> event list" where
  "prologue cfg =
     [NewStream AVMEDIA_TYPE_VIDEO 0, NewStream AVMEDIA_TYPE_AUDIO 1]
     @ (if AVFMT_NOFILE cfg then [] else [AvioOpen (avio_open_ret cfg)])
     @ [WriteHeader (write_header_ret cfg), SetAnchor (now_us (start_clock cfg))]"

definition loop_start :: "environment \<Rightarrow> mux_state" where
  "loop_start cfg =
     \<lparr>begin_timestamp_us = now_us (start_clock cfg), video_pts = 0, audio_frame = 0,
      streams = [video_stream (AVFMT_GLOBALHEADER cfg), audio_stream (AVFMT_GLOBALHEADER cfg)],
      trace = prologue cfg\<rparr>"

text \<open>The events after a loop that ended by its condition.\<close>
definition epilogue :: "environment \<Rightarrow> event list" where
  "epilogue cfg =
     WriteTrailer # (if AVFMT_NOFILE cfg then [] else [AvioClose]) @ [FreeContext]"

text \<open>Every event of \<open>evs\<close> is one that some iteration of \<open>ticks\<close> can produce.\<close>
definition loop_events ::
  "64 word \<Rightarrow> AVStream option \<Rightarrow> AVStream option \<Rightarrow> tick list \<Rightarrow> event list \<Rightarrow> bool" where
  "loop_events b vsto asto ticks evs = list_all (\<lambda>e. \<exists>tk\<in>set ticks. tick_event b vsto asto tk e) evs"

text \<open>The packets submitted, in order.\<close>
fun packet_of :: "event \<Rightarrow> AVPacket list" where
  "packet_of (Submit k p r) = [p]"
| "packet_of _ = []"

definition submitted :: "event list \<Rightarrow> AVPacket list" where
  "submitted tr = concat (map packet_of tr)"

text \<open>The events a call added to the trace of the state it started from.\<close>
definition added :: "mux_state \<Rightarrow> mux_state \<Rightarrow> event list" where
  "added s s' = drop (length (trace s)) (trace s')"

fun is_stderr :: "event \<Rightarrow> bool" where
  "is_stderr (Stderr m) = True"
| "is_stderr _ = False"

section \<open>Concrete environments\<close>

text \<open>A run whose preparation succeeds, with the flags of the MP4 muxer: a file is
  opened and global headers are asked for.\<close>
definition env_ok :: environment where
  "env_ok =
     \<lparr>argc = 2, alloc_ok = True, video_stream_ok = True, audio_stream_ok = True,
      AVFMT_NOFILE = False, AVFMT_GLOBALHEADER = True, avio_open_ret = 0,
      write_header_ret = 0, start_clock = \<lparr>tv_sec = 1700000000, tv_usec = 0\<rparr>\<rparr>"

definition no_files :: files where
  "no_files = (\<lambda>name. None)"

definition zero_buf :: buffer where
  "zero_buf = (\<lambda>i. 0)"

text \<open>An iteration that finds neither file, two seconds after the anchor.\<close>
definition idle_tick :: tick where
  "idle_tick =
     \<lparr>v_clock = \<lparr>tv_sec = 1700000002, tv_usec = 0\<rparr>, v_files = no_files, v_buf = zero_buf,
      v_ret = 0, v_write = 0, a_files = no_files, a_buf = zero_buf,
      a_clock = \<lparr>tv_sec = 1700000002, tv_usec = 0\<rparr>, a_frame = False, a_write = 0\<rparr>"

text \<open>A three-byte video file, read into a buffer whose fifth byte still holds the
  header byte \<open>0x67\<close> of a parameter set.\<close>
definition short_unit :: "byte list" where
  "short_unit = [0, 0, 1]"

definition stale_sps :: buffer where
  "stale_sps = (\<lambda>i. if i = 4 then 0x67 else 0)"

definition short_tick :: tick where
  "short_tick =
     idle_tick\<lparr>v_clock := \<lparr>tv_sec = 1700000001, tv_usec = 0\<rparr>,
               v_files := no_files(video_filename 0 \<mapsto> short_unit), v_buf := stale_sps\<rparr>"

text \<open>A video unit that is not a parameter set, and an iteration in which the library
  rejects it (status \<open>-5\<close>) while the local \<^verbatim>\<open>ret\<close> happens to hold 0.\<close>
definition slice_unit :: "byte list" where
  "slice_unit = [0, 0, 0, 1, 0x41, 0x9a]"

definition rejected_video_tick :: tick where
  "rejected_video_tick =
     idle_tick\<lparr>v_clock := \<lparr>tv_sec = 1700000001, tv_usec = 0\<rparr>,
               v_files := no_files(video_filename 0 \<mapsto> slice_unit), v_write := - 5\<rparr>"

text \<open>Iterations in which the file of the current counter exists and is empty.\<close>
definition empty_video_tick :: tick where
  "empty_video_tick =
     idle_tick\<lparr>v_clock := \<lparr>tv_sec = 1700000001, tv_usec = 0\<rparr>,
               v_files := no_files(video_filename 0 \<mapsto> [])\<rparr>"

definition empty_both_tick :: tick where
  "empty_both_tick =
     empty_video_tick\<lparr>a_files := no_files(audio_filename 0 \<mapsto> [])\<rparr>"

text \<open>An iteration in which both files of counter 0 have arrived: a parameter set and
  two bytes of audio, the audio read one second after the anchor.\<close>
definition sps_unit :: "byte list" where
  "sps_unit = [0, 0, 0, 1, 0x67, 0x42]"

definition both_tick :: tick where
  "both_tick =
     idle_tick\<lparr>v_clock := \<lparr>tv_sec = 1700000000, tv_usec = 995000\<rparr>,
               v_files := no_files(video_filename 0 \<mapsto> sps_unit),
               a_files := no_files(audio_filename 0 \<mapsto> [0xff, 0xf1]),
               a_clock := \<lparr>tv_sec = 1700000001, tv_usec = 0\<rparr>\<rparr>"

text \<open>A unit of 60000 bytes, more than the buffers of the writers hold, and an iteration
  in which it has arrived under counter 0 for both streams.\<close>
definition big_unit :: "byte list" where
  "big_unit = replicate 60000 0"

definition big_tick :: tick where
  "big_tick =
     idle_tick\<lparr>v_files := no_files(video_filename 0 \<mapsto> big_unit),
               a_files := no_files(audio_filename 0 \<mapsto> big_unit)\<rparr>"

text \<open>A later iteration: the files of counter 1 have arrived, a slice for the video
  stream and two bytes of audio.\<close>
definition later_tick :: tick where
  "later_tick =
     idle_tick\<lparr>v_clock := \<lparr>tv_sec = 1700000001, tv_usec = 40000\<rparr>,
               v_files := no_files(video_filename 1 \<mapsto> slice_unit),
               a_files := no_files(audio_filename 1 \<mapsto> [0xff, 0xf1]),
               a_clock := \<lparr>tv_sec = 1700000001, tv_usec = 45000\<rparr>\<rparr>"

text \<open>The run \<open>[both_tick, later_tick, idle_tick]\<close> in \<open>env_ok\<close>: the states after each of
  its three iterations and at its end.\<close>
definition demo_ticks :: "tick list" where
  "demo_ticks = [both_tick, later_tick, idle_tick]"

definition demo_first :: mux_state where
  "demo_first =
     emit [Fopen (video_filename 0) True,
           Submit AVMEDIA_TYPE_VIDEO
             \<lparr>pts = 995000, dts = 995000, stream_index = 0, flags = AV_PKT_FLAG_KEY, size = 6,
              data = [0, 0, 0, 1, 0x67, 0x42]\<rparr> 0,
           Fopen (audio_filename 0) True,
           Submit AVMEDIA_TYPE_AUDIO
             \<lparr>pts = 1000000, dts = 1000000, stream_index = 1, flags = 0, size = 2,
              data = [0xff, 0xf1]\<rparr> 0,
           Usleep]
       ((loop_start env_ok)\<lparr>video_pts := 1, audio_frame := 1\<rparr>)"

definition demo_second :: mux_state where
  "demo_second =
     emit [Fopen (video_filename 1) True,
           Submit AVMEDIA_TYPE_VIDEO
             \<lparr>pts = 1040000, dts = 1040000, stream_index = 0, flags = 0, size = 6,
              data = [0, 0, 0, 1, 0x41, 0x9a]\<rparr> 0,
           Fopen (audio_filename 1) True,
           Submit AVMEDIA_TYPE_AUDIO
             \<lparr>pts = 1045000, dts = 1045000, stream_index = 1, flags = 0, size = 2,
              data = [0xff, 0xf1]\<rparr> 0,
           Usleep]
       (demo_first\<lparr>video_pts := 2, audio_frame := 2\<rparr>)"

definition demo_third :: mux_state where
  "demo_third =
     emit [Fopen (video_filename 2) False, Fopen (audio_filename 2) False, Usleep] demo_second"

definition demo_final :: mux_state where
  "demo_final = emit (epilogue env_ok) demo_third"

text \<open>An iteration in which the only file found is two bytes of audio, and the library
  rejects the packet (status \<open>-5\<close>).\<close>
definition rejected_audio_tick :: tick where
  "rejected_audio_tick =
     idle_tick\<lparr>a_files := no_files(audio_filename 0 \<mapsto> [0xff, 0xf1]),
               a_clock := \<lparr>tv_sec = 1700000001, tv_usec = 0\<rparr>, a_write := - 5\<rparr>"

section \<open>Properties of traces\<close>

text \<open>The first event that is a header write or a submission is a header write, and no
  header write follows it: exactly one header write, before every submission.\<close>
definition header_first :: "event list \<Rightarrow> bool" where
  "header_first tr =
     (case dropWhile (\<lambda>e. \<not> is_header e \<and> \<not> is_submit e) tr of
        [] \<Rightarrow> False
      | e # rest \<Rightarrow> is_header e \<and> \<not> list_ex is_header rest)"

text \<open>There is a trailer write, and neither a trailer write nor a submission follows the
  first one: exactly one trailer write, after every submission.\<close>
definition trailer_last :: "event list \<Rightarrow> bool" where
  "trailer_last tr =
     (case dropWhile (\<lambda>e. \<not> is_trailer e) tr of
        [] \<Rightarrow> False
      | e # rest \<Rightarrow> \<not> list_ex is_trailer rest \<and> \<not> list_ex is_submit rest)"

text \<open>The first assignment of the anchor comes right after a header write that
  succeeded, and no file was polled and no packet submitted before it.\<close>
fun anchored :: "event list \<Rightarrow> bool" where
  "anchored (WriteHeader h # SetAnchor b # rest) = (0 \<le> h)"
| "anchored (e # rest) = (\<not> is_fopen e \<and> \<not> is_submit e \<and> \<not> is_anchor e \<and> anchored rest)"
| "anchored [] = False"

text \<open>A submission carries, as both of its time stamps, the clock reading of the
  iteration \<open>tk\<close> minus the anchor \<open>b\<close>: the reading \<^verbatim>\<open>write_video_frame\<close> takes in that
  iteration for a video packet, the one \<^verbatim>\<open>write_audio_frame\<close> takes for an audio packet.\<close>
fun stamped_at :: "64 word \<Rightarrow> tick \<Rightarrow> event \<Rightarrow> bool" where
  "stamped_at b tk (Submit k p r) =
     (pts p = now_us (if k = AVMEDIA_TYPE_VIDEO then v_clock tk else a_clock tk) - b
      \<and> dts p = pts p)"
| "stamped_at b tk e = True"

text \<open>The events of the loop, read against the iterations that produce them. The first
  iteration of \<open>ticks\<close> is the current one until the \<^verbatim>\<open>usleep\<close> that ends it; every
  submission must carry the reading of the iteration that is current when it is made.
  Once the iterations are used up nothing may be submitted.\<close>
fun stamped_run :: "64 word \<Rightarrow> tick list \<Rightarrow> event list \<Rightarrow> bool" where
  "stamped_run b ticks [] = True"
| "stamped_run b [] (e # evs) = (\<not> is_submit e \<and> stamped_run b [] evs)"
| "stamped_run b (tk # ticks) (e # evs) =
     (stamped_at b tk e \<and> stamped_run b (if e = Usleep then ticks else tk # ticks) evs)"

text \<open>The events after the first assignment of the anchor.\<close>
definition after_anchor :: "event list \<Rightarrow> event list" where
  "after_anchor tr = drop 1 (dropWhile (\<lambda>e. \<not> is_anchor e) tr)"

text \<open>A submission carries the index its stream got when it was registered.\<close>
fun indexed :: "event \<Rightarrow> bool" where
  "indexed (Submit k p r) = (stream_index p = (if k = AVMEDIA_TYPE_VIDEO then 0 else 1))"
| "indexed e = True"

text \<open>The events of a run that ends before the anchor is set.\<close>
fun preparing :: "event \<Rightarrow> bool" where
  "preparing (NewStream k i) = True"
| "preparing (AvioOpen r) = True"
| "preparing (WriteHeader h) = (h < 0)"
| "preparing (Stderr m) = True"
| "preparing e = False"

text \<open>Following the claim's words, not the source: a number of microseconds converted
  into units of a time base \<open>num/den\<close> seconds, rounded down.\<close>
definition in_time_base :: "int \<Rightarrow> AVRational \<Rightarrow> int" where
  "in_time_base us tb = (us * den tb) div (1000000 * num tb)"

section \<open>Basic facts\<close>

lemma trace_emit [simp]: "trace (emit evs s) = trace s @ evs"
  and begin_emit [simp]: "begin_timestamp_us (emit evs s) = begin_timestamp_us s"
  and streams_emit [simp]: "streams (emit evs s) = streams s"
  and video_pts_emit [simp]: "video_pts (emit evs s) = video_pts s"
  and audio_frame_emit [simp]: "audio_frame (emit evs s) = audio_frame s"
  by (simp_all add: emit_def)

lemma deref_cong: "streams s' = streams s \<Longrightarrow> deref s' ost = deref s ost"
  by (cases ost) (simp_all add: deref_def)

lemma deref_emit [simp]: "deref (emit evs s) ost = deref s ost"
  by (rule deref_cong) simp

lemma fread_prefix:
  "map (fread buf content) [0..<length content] = map ((!) content) [0..<length content]"
  apply (simp only: map_eq_conv)
  apply (simp only: fread_def)
  apply simp
  done

lemma payload_fread: "payload (fread buf content) (length content) = content"
  unfolding payload_def fread_prefix by (rule map_nth)

lemma low_nibble_promoted: "scast (b :: 8 word) AND (0x0f :: 32 word) = ucast (b AND 0x0f)"
proof -
  have m8: "(15 :: 8 word) = mask 4" and m32: "(15 :: 32 word) = mask 4"
    by (simp_all add: mask_eq_exp_minus_1)
  show ?thesis
    unfolding m8 m32 by (rule bit_word_eqI) (auto simp add: bit_simps)
qed

lemma ucast_eq_7: "(ucast (x :: 8 word) = (0x7 :: 32 word)) = (x = 0x7)"
proof -
  have "uint (ucast x :: 32 word) = uint x"
    by (rule uint_up_ucast) (simp add: is_up)
  then show ?thesis
    by (auto simp add: word_uint_eq_iff)
qed

lemma is_IDR_nal_byte: "is_IDR_nal buf = (buf 4 AND 0x0f = 0x7)"
  by (simp add: is_IDR_nal_def nal_type_def low_nibble_promoted ucast_eq_7)

section \<open>The writers, case by case\<close>

lemma write_video_frame_null:
  "deref s ost = None \<Longrightarrow> write_video_frame ost tk s = (Fault, s)"
  by (simp add: write_video_frame_def)

lemma write_video_frame_absent:
  "deref s ost = Some st \<Longrightarrow> v_files tk (video_filename (video_pts s)) = None \<Longrightarrow>
   write_video_frame ost tk s = (Ret 1, emit [Fopen (video_filename (video_pts s)) False] s)"
  by (simp add: write_video_frame_def)

lemma write_video_frame_overrun:
  "deref s ost = Some st \<Longrightarrow> v_files tk (video_filename (video_pts s)) = Some content \<Longrightarrow>
   buf_size < length content \<Longrightarrow>
   write_video_frame ost tk s = (Fault, emit [Fopen (video_filename (video_pts s)) True] s)"
  by (simp add: write_video_frame_def)

lemma write_video_frame_present:
  "deref s ost = Some st \<Longrightarrow> v_files tk (video_filename (video_pts s)) = Some content \<Longrightarrow>
   length content \<le> buf_size \<Longrightarrow>
   write_video_frame ost tk s =
     (if v_ret tk < 0 then Exit 1 else Ret 0,
      emit ([Fopen (video_filename (video_pts s)) True,
             Submit (kind st) (video_packet st tk s content) (v_write tk)]
            @ (if v_ret tk < 0 then [Stderr ''Error while writing video frame''] else []))
        (s\<lparr>video_pts := video_pts s + 1\<rparr>))"
  by (simp add: write_video_frame_def write_frame_def video_packet_def av_init_packet_def
      emit_def Let_def)

lemma write_audio_frame_null:
  "deref s ost = None \<Longrightarrow> write_audio_frame ost tk s = (Fault, s)"
  by (simp add: write_audio_frame_def)

lemma write_audio_frame_absent:
  "deref s ost = Some st \<Longrightarrow> a_files tk (audio_filename (audio_frame s)) = None \<Longrightarrow>
   write_audio_frame ost tk s = (Ret 1, emit [Fopen (audio_filename (audio_frame s)) False] s)"
  by (simp add: write_audio_frame_def)

lemma write_audio_frame_overrun:
  "deref s ost = Some st \<Longrightarrow> a_files tk (audio_filename (audio_frame s)) = Some content \<Longrightarrow>
   buf_size < length content \<Longrightarrow>
   write_audio_frame ost tk s = (Fault, emit [Fopen (audio_filename (audio_frame s)) True] s)"
  by (simp add: write_audio_frame_def)

lemma write_audio_frame_present:
  "deref s ost = Some st \<Longrightarrow> a_files tk (audio_filename (audio_frame s)) = Some content \<Longrightarrow>
   length content \<le> buf_size \<Longrightarrow>
   write_audio_frame ost tk s =
     (if a_write tk < 0 then Exit 1 else Ret 0,
      emit ([Fopen (audio_filename (audio_frame s)) True,
             Submit (kind st) (audio_packet st tk s content) (a_write tk)]
            @ (if a_write tk < 0 then [Stderr ''Error while writing audio frame''] else []))
        (s\<lparr>audio_frame := audio_frame s + 1\<rparr>))"
  by (simp add: write_audio_frame_def write_frame_def audio_packet_def av_init_packet_def
      emit_def Let_def)

text \<open>What every call of a writer does to the state, whatever the case.\<close>

lemma write_video_frame_effect:
  assumes "write_video_frame ost tk s = (r, s')"
  shows "\<exists>evs. trace s' = trace s @ evs
           \<and> list_all (video_event (begin_timestamp_us s) (deref s ost) tk) evs
           \<and> begin_timestamp_us s' = begin_timestamp_us s \<and> streams s' = streams s
           \<and> audio_frame s' = audio_frame s
           \<and> (r = Ret 0 \<or> r = Ret 1 \<or> r = Exit 1 \<or> r = Fault)"
proof (cases "deref s ost")
  case None
  with assms show ?thesis by (simp add: write_video_frame_null)
next
  case (Some st)
  show ?thesis
  proof (cases "v_files tk (video_filename (video_pts s))")
    case None
    with Some assms show ?thesis
      by (auto simp add: write_video_frame_absent video_event_def)
  next
    case (Some content)
    note found = Some
    show ?thesis
    proof (cases "buf_size < length content")
      case True
      with \<open>deref s ost = Some st\<close> found assms show ?thesis
        by (auto simp add: write_video_frame_overrun video_event_def)
    next
      case False
      then have "length content \<le> buf_size" by simp
      from write_video_frame_present [OF \<open>deref s ost = Some st\<close> found this] assms
      have r: "r = (if v_ret tk < 0 then Exit 1 else Ret 0)"
        and s': "s' = emit ([Fopen (video_filename (video_pts s)) True,
             Submit (kind st) (video_packet st tk s content) (v_write tk)]
            @ (if v_ret tk < 0 then [Stderr ''Error while writing video frame''] else []))
        (s\<lparr>video_pts := video_pts s + 1\<rparr>)"
        by simp_all
      have "submit_from (begin_timestamp_us s) (Some st) (v_clock tk) (v_write tk)
              (Submit (kind st) (video_packet st tk s content) (v_write tk))"
        by (simp add: video_packet_def)
      then show ?thesis
        unfolding r s' using \<open>deref s ost = Some st\<close>
        by (simp add: video_event_def)
    qed
  qed
qed

lemma write_audio_frame_effect:
  assumes "write_audio_frame ost tk s = (r, s')"
  shows "\<exists>evs. trace s' = trace s @ evs
           \<and> list_all (audio_event (begin_timestamp_us s) (deref s ost) tk) evs
           \<and> begin_timestamp_us s' = begin_timestamp_us s \<and> streams s' = streams s
           \<and> video_pts s' = video_pts s
           \<and> (r = Ret 0 \<or> r = Ret 1 \<or> r = Exit 1 \<or> r = Fault)"
proof (cases "deref s ost")
  case None
  with assms show ?thesis by (simp add: write_audio_frame_null)
next
  case (Some st)
  show ?thesis
  proof (cases "a_files tk (audio_filename (audio_frame s))")
    case None
    with Some assms show ?thesis
      by (auto simp add: write_audio_frame_absent audio_event_def)
  next
    case (Some content)
    note found = Some
    show ?thesis
    proof (cases "buf_size < length content")
      case True
      with \<open>deref s ost = Some st\<close> found assms show ?thesis
        by (auto simp add: write_audio_frame_overrun audio_event_def)
    next
      case False
      then have "length content \<le> buf_size" by simp
      from write_audio_frame_present [OF \<open>deref s ost = Some st\<close> found this] assms
      have r: "r = (if a_write tk < 0 then Exit 1 else Ret 0)"
        and s': "s' = emit ([Fopen (audio_filename (audio_frame s)) True,
             Submit (kind st) (audio_packet st tk s content) (a_write tk)]
            @ (if a_write tk < 0 then [Stderr ''Error while writing audio frame''] else []))
        (s\<lparr>audio_frame := audio_frame s + 1\<rparr>)"
        by simp_all
      have "submit_from (begin_timestamp_us s) (Some st) (a_clock tk) (a_write tk)
              (Submit (kind st) (audio_packet st tk s content) (a_write tk))"
        by (simp add: audio_packet_def)
      then show ?thesis
        unfolding r s' using \<open>deref s ost = Some st\<close>
        by (simp add: audio_event_def)
    qed
  qed
qed

section \<open>One iteration, and the loop\<close>

lemma tick_event_video: "video_event b vsto tk e \<Longrightarrow> tick_event b vsto asto tk e"
  and tick_event_audio: "audio_event b asto tk e \<Longrightarrow> tick_event b vsto asto tk e"
  by (simp_all add: tick_event_def)

lemma tick_event_Usleep [simp]: "tick_event b vsto asto tk Usleep"
  by (simp add: tick_event_def video_event_def)

lemma iteration_split:
  assumes "iteration v a tk s = (r, s')"
  shows "\<exists>evs1 evs2. trace s' = trace s @ evs1 @ evs2
           \<and> list_all (video_event (begin_timestamp_us s) (deref s v) tk) evs1
           \<and> list_all (audio_event (begin_timestamp_us s) (deref s a) tk) evs2
           \<and> begin_timestamp_us s' = begin_timestamp_us s \<and> streams s' = streams s
           \<and> (r = Exit 1 \<or> r = Fault \<or> (\<exists>fl. r = Ret fl))"
proof -
  obtain rv s1 where v: "write_video_frame v tk s = (rv, s1)"
    by (cases "write_video_frame v tk s")
  from write_video_frame_effect [OF v] obtain evs1 where
    e1: "trace s1 = trace s @ evs1"
      "list_all (video_event (begin_timestamp_us s) (deref s v) tk) evs1"
      "begin_timestamp_us s1 = begin_timestamp_us s" "streams s1 = streams s"
      "rv = Ret 0 \<or> rv = Ret 1 \<or> rv = Exit 1 \<or> rv = Fault"
    by blast
  have nil: "list_all (audio_event (begin_timestamp_us s) (deref s a) tk) []"
    by simp
  show ?thesis
  proof (cases "\<exists>x. rv = Ret x")
    case False
    with e1(5) have "rv = Exit 1 \<or> rv = Fault" by auto
    with assms v have "s' = s1" "r = Exit 1 \<or> r = Fault"
      by (auto simp add: iteration_def then_do_def)
    with e1 nil have "trace s' = trace s @ evs1 @ []
        \<and> list_all (video_event (begin_timestamp_us s) (deref s v) tk) evs1
        \<and> list_all (audio_event (begin_timestamp_us s) (deref s a) tk) []
        \<and> begin_timestamp_us s' = begin_timestamp_us s \<and> streams s' = streams s
        \<and> (r = Exit 1 \<or> r = Fault \<or> (\<exists>fl. r = Ret fl))"
      by auto
    then show ?thesis by blast
  next
    case True
    then obtain x where x: "rv = Ret x" by blast
    obtain ra s2 where a: "write_audio_frame a tk s1 = (ra, s2)"
      by (cases "write_audio_frame a tk s1")
    from write_audio_frame_effect [OF a] obtain evs2 where
      e2: "trace s2 = trace s1 @ evs2"
        "list_all (audio_event (begin_timestamp_us s1) (deref s1 a) tk) evs2"
        "begin_timestamp_us s2 = begin_timestamp_us s1" "streams s2 = streams s1"
        "ra = Ret 0 \<or> ra = Ret 1 \<or> ra = Exit 1 \<or> ra = Fault"
      by blast
    have d: "deref s1 a = deref s a"
      using e1(4) by (rule deref_cong)
    have t2: "list_all (audio_event (begin_timestamp_us s) (deref s a) tk) evs2"
      using e2(2) by (simp add: e1(3) d)
    have t3: "list_all (audio_event (begin_timestamp_us s) (deref s a) tk) (evs2 @ [Usleep])"
      using t2 by (simp add: audio_event_def)
    show ?thesis
    proof (cases "\<exists>y. ra = Ret y")
      case False
      with e2(5) have "ra = Exit 1 \<or> ra = Fault" by auto
      with assms v a x have "s' = s2" "r = Exit 1 \<or> r = Fault"
        by (auto simp add: iteration_def then_do_def)
      with e1 e2 t2 have "trace s' = trace s @ evs1 @ evs2
          \<and> list_all (video_event (begin_timestamp_us s) (deref s v) tk) evs1
          \<and> list_all (audio_event (begin_timestamp_us s) (deref s a) tk) evs2
          \<and> begin_timestamp_us s' = begin_timestamp_us s \<and> streams s' = streams s
          \<and> (r = Exit 1 \<or> r = Fault \<or> (\<exists>fl. r = Ret fl))"
        by auto
      then show ?thesis by blast
    next
      case True
      then obtain y where "ra = Ret y" by blast
      with assms v a x have "s' = emit [Usleep] s2" "r = Ret (x = 0, y = 0)"
        by (auto simp add: iteration_def then_do_def)
      with e1 e2 t3 have "trace s' = trace s @ evs1 @ (evs2 @ [Usleep])
          \<and> list_all (video_event (begin_timestamp_us s) (deref s v) tk) evs1
          \<and> list_all (audio_event (begin_timestamp_us s) (deref s a) tk) (evs2 @ [Usleep])
          \<and> begin_timestamp_us s' = begin_timestamp_us s \<and> streams s' = streams s
          \<and> (r = Exit 1 \<or> r = Fault \<or> (\<exists>fl. r = Ret fl))"
        by auto
      then show ?thesis by blast
    qed
  qed
qed

lemma iteration_effect:
  assumes "iteration v a tk s = (r, s')"
  shows "\<exists>evs. trace s' = trace s @ evs
           \<and> list_all (tick_event (begin_timestamp_us s) (deref s v) (deref s a) tk) evs
           \<and> begin_timestamp_us s' = begin_timestamp_us s \<and> streams s' = streams s
           \<and> (r = Exit 1 \<or> r = Fault \<or> (\<exists>fl. r = Ret fl))"
proof -
  from iteration_split [OF assms] obtain evs1 evs2 where
    e: "trace s' = trace s @ evs1 @ evs2"
      "list_all (video_event (begin_timestamp_us s) (deref s v) tk) evs1"
      "list_all (audio_event (begin_timestamp_us s) (deref s a) tk) evs2"
      "begin_timestamp_us s' = begin_timestamp_us s" "streams s' = streams s"
      "r = Exit 1 \<or> r = Fault \<or> (\<exists>fl. r = Ret fl)"
    by blast
  have "list_all (tick_event (begin_timestamp_us s) (deref s v) (deref s a) tk) (evs1 @ evs2)"
    using e(2,3) by (auto simp add: list_all_iff tick_event_def)
  with e(1,4,5,6) show ?thesis by blast
qed

lemma loop_events_Nil [simp]: "loop_events b vsto asto ticks []"
  by (simp add: loop_events_def)

lemma loop_events_append:
  "list_all (tick_event b vsto asto tk) evs1 \<Longrightarrow> loop_events b vsto asto ticks evs2 \<Longrightarrow>
   loop_events b vsto asto (tk # ticks) (evs1 @ evs2)"
  by (auto simp add: loop_events_def list_all_iff)

lemma poll_loop_effect:
  "poll_loop v a fl ticks s = (r, s') \<Longrightarrow>
   \<exists>evs. trace s' = trace s @ evs
     \<and> loop_events (begin_timestamp_us s) (deref s v) (deref s a) ticks evs
     \<and> begin_timestamp_us s' = begin_timestamp_us s \<and> streams s' = streams s
     \<and> (r = None \<or> r = Some (Ret ()) \<or> r = Some (Exit 1) \<or> r = Some Fault)"
proof (induction ticks arbitrary: fl s)
  case Nil
  then show ?case
    by (cases fl) (auto split: if_splits)
next
  case (Cons tk ticks)
  obtain ev ea where fl: "fl = (ev, ea)" by (cases fl)
  show ?case
  proof (cases "ev \<or> ea")
    case False
    with Cons.prems fl show ?thesis by auto
  next
    case True
    obtain ri s1 where it: "iteration v a tk s = (ri, s1)"
      by (cases "iteration v a tk s")
    from iteration_effect [OF it] obtain evs1 where
      e1: "trace s1 = trace s @ evs1"
        "list_all (tick_event (begin_timestamp_us s) (deref s v) (deref s a) tk) evs1"
        "begin_timestamp_us s1 = begin_timestamp_us s" "streams s1 = streams s"
        "ri = Exit 1 \<or> ri = Fault \<or> (\<exists>fl. ri = Ret fl)"
      by blast
    have e1': "loop_events (begin_timestamp_us s) (deref s v) (deref s a) (tk # ticks) (evs1 @ [])"
      using e1(2) by (rule loop_events_append) simp
    show ?thesis
    proof (cases "\<exists>fl'. ri = Ret fl'")
      case False
      with e1(5) have "ri = Exit 1 \<or> ri = Fault" by auto
      with Cons.prems fl True it have "s' = s1" "r = Some (Exit 1) \<or> r = Some Fault"
        by auto
      with e1 e1' show ?thesis by auto
    next
      case True
      then obtain fl' where "ri = Ret fl'" by blast
      with Cons.prems fl \<open>ev \<or> ea\<close> it have rec: "poll_loop v a fl' ticks s1 = (r, s')"
        by auto
      from Cons.IH [OF rec] obtain evs2 where
        e2: "trace s' = trace s1 @ evs2"
          "loop_events (begin_timestamp_us s1) (deref s1 v) (deref s1 a) ticks evs2"
          "begin_timestamp_us s' = begin_timestamp_us s1" "streams s' = streams s1"
          "r = None \<or> r = Some (Ret ()) \<or> r = Some (Exit 1) \<or> r = Some Fault"
        by blast
      have "deref s1 v = deref s v"
        using e1(4) by (rule deref_cong)
      moreover have "deref s1 a = deref s a"
        using e1(4) by (rule deref_cong)
      ultimately
      have "loop_events (begin_timestamp_us s) (deref s v) (deref s a) ticks evs2"
        using e2(2) e1(3) by simp
      with e1(2)
      have "loop_events (begin_timestamp_us s) (deref s v) (deref s a) (tk # ticks) (evs1 @ evs2)"
        by (rule loop_events_append)
      with e1 e2 show ?thesis by auto
    qed
  qed
qed

section \<open>The run up to the loop\<close>

lemma add_stream_video:
  "add_stream True gh AV_CODEC_ID_H264 init_state =
     (Ret (Some 0), init_state\<lparr>streams := [video_stream gh],
                                trace := [NewStream AVMEDIA_TYPE_VIDEO 0]\<rparr>)"
  by (simp add: add_stream_def avformat_new_stream_def ff_fakeh264_encoder_def init_state_def
      emit_def video_stream_def STREAM_FRAME_RATE_def Let_def)

lemma add_stream_audio:
  "add_stream True gh AV_CODEC_ID_AAC
       (init_state\<lparr>streams := [video_stream gh], trace := [NewStream AVMEDIA_TYPE_VIDEO 0]\<rparr>) =
     (Ret (Some 1),
      init_state\<lparr>streams := [video_stream gh, audio_stream gh],
                 trace := [NewStream AVMEDIA_TYPE_VIDEO 0, NewStream AVMEDIA_TYPE_AUDIO 1]\<rparr>)"
  by (simp add: add_stream_def avformat_new_stream_def ff_fake_amrnb_encoder_def init_state_def
      emit_def audio_stream_def choose_sample_rate_def Let_def)

lemma add_stream_failed:
  "add_stream False gh cid s = (Exit 1, emit [Stderr ''Could not allocate stream''] s)"
  by (simp add: add_stream_def avformat_new_stream_def Let_def)

lemma main_add_streams_ok:
  "video_stream_ok cfg \<Longrightarrow> audio_stream_ok cfg \<Longrightarrow>
   main_add_streams cfg ff_mp4_muxer init_state
     = (Ret (Some 0, Some 1, True, True), registered cfg)"
  apply (simp add: main_add_streams_def ff_mp4_muxer_def then_do_def add_stream_video
      add_stream_audio)
  apply (simp add: registered_def init_state_def)
  done

lemma main_add_streams_no_video:
  "\<not> video_stream_ok cfg \<Longrightarrow>
   main_add_streams cfg ff_mp4_muxer init_state
     = (Exit 1, emit [Stderr ''Could not allocate stream''] init_state)"
  by (simp add: main_add_streams_def ff_mp4_muxer_def then_do_def add_stream_failed)

lemma main_add_streams_no_audio:
  "video_stream_ok cfg \<Longrightarrow> \<not> audio_stream_ok cfg \<Longrightarrow>
   main_add_streams cfg ff_mp4_muxer init_state
     = (Exit 1, emit [Stderr ''Could not allocate stream'']
          (init_state\<lparr>streams := [video_stream (AVFMT_GLOBALHEADER cfg)],
                      trace := [NewStream AVMEDIA_TYPE_VIDEO 0]\<rparr>))"
  by (simp add: main_add_streams_def ff_mp4_muxer_def then_do_def add_stream_failed
      add_stream_video)

lemma main_header_written:
  assumes "header_written cfg"
  shows "main cfg ticks =
     (case poll_loop (Some 0) (Some 1) (True, True) ticks (loop_start cfg) of
        (None, s) \<Rightarrow> (None, s)
      | (Some (Ret u), s) \<Rightarrow> (Some (Ret 0), emit (epilogue cfg) s)
      | (Some (Exit c), s) \<Rightarrow> (Some (Exit c), s)
      | (Some Fault, s) \<Rightarrow> (Some Fault, s))"
proof -
  from assms have ok: "video_stream_ok cfg" "audio_stream_ok cfg" "\<not> argc cfg < 2" "alloc_ok cfg"
    "\<not> (\<not> AVFMT_NOFILE cfg \<and> avio_open_ret cfg < 0)" "\<not> write_header_ret cfg < 0"
    by (auto simp add: header_written_def)
  have start: "emit [SetAnchor (now_us (start_clock cfg))]
      ((emit [WriteHeader (write_header_ret cfg)]
         (if \<not> AVFMT_NOFILE cfg then emit [AvioOpen (avio_open_ret cfg)] (registered cfg)
          else registered cfg))\<lparr>begin_timestamp_us := now_us (start_clock cfg)\<rparr>) = loop_start cfg"
    by (simp add: emit_def registered_def loop_start_def prologue_def)
  show ?thesis
    unfolding main_def main_add_streams_ok [OF ok(1,2)]
    using ok(3-6)
    apply (simp only: if_False if_True simp_thms Let_def prod.case res.case start)
    apply (cases "poll_loop (Some 0) (Some 1) (True, True) ticks (loop_start cfg)")
    apply (simp add: emit_def epilogue_def split: option.split res.split)
    done
qed

section \<open>Evaluating calls\<close>

lemma deref_loop_start [simp]:
  "deref (loop_start cfg) (Some 0) = Some (video_stream (AVFMT_GLOBALHEADER cfg))"
  "deref (loop_start cfg) (Some (Suc 0)) = Some (audio_stream (AVFMT_GLOBALHEADER cfg))"
  by (simp_all add: deref_def loop_start_def)

lemma loop_start_fields [simp]:
  "video_pts (loop_start cfg) = 0" "audio_frame (loop_start cfg) = 0"
  "begin_timestamp_us (loop_start cfg) = now_us (start_clock cfg)"
  "trace (loop_start cfg) = prologue cfg"
  "streams (loop_start cfg) = [video_stream (AVFMT_GLOBALHEADER cfg), audio_stream (AVFMT_GLOBALHEADER cfg)]"
  by (simp_all add: loop_start_def)

lemma deref_update [simp]:
  "deref (s\<lparr>video_pts := n\<rparr>) ost = deref s ost"
  "deref (s\<lparr>audio_frame := n\<rparr>) ost = deref s ost"
  by (rule deref_cong, simp)+

lemma added_emit [simp]: "added s (emit evs (s\<lparr>video_pts := n\<rparr>)) = evs"
  "added s (emit evs (s\<lparr>audio_frame := n\<rparr>)) = evs" "added s (emit evs s) = evs"
  by (simp_all add: added_def)

lemma submitted_simps [simp]:
  "submitted [] = []"
  "submitted (Submit k p r # tr) = p # submitted tr"
  "submitted (Fopen f b # tr) = submitted tr"
  "submitted (Stderr m # tr) = submitted tr"
  "submitted (Usleep # tr) = submitted tr"
  by (simp_all add: submitted_def)

lemma submitted_append [simp]: "submitted (xs @ ys) = submitted xs @ submitted ys"
  by (simp add: submitted_def)

lemma iteration_returns:
  "write_video_frame v tk s = (Ret rv, s1) \<Longrightarrow> write_audio_frame a tk s1 = (Ret ra, s2) \<Longrightarrow>
   iteration v a tk s = (Ret (rv = 0, ra = 0), emit [Usleep] s2)"
  by (simp add: iteration_def then_do_def)

lemma iteration_idle:
  assumes "deref s v = Some vst" "deref s a = Some ast"
    "v_files tk (video_filename (video_pts s)) = None"
    "a_files tk (audio_filename (audio_frame s)) = None"
  shows "iteration v a tk s =
    (Ret (False, False),
     emit [Fopen (video_filename (video_pts s)) False,
           Fopen (audio_filename (audio_frame s)) False, Usleep] s)"
proof -
  have v: "write_video_frame v tk s = (Ret 1, emit [Fopen (video_filename (video_pts s)) False] s)"
    using assms(1,3) by (rule write_video_frame_absent)
  have "write_audio_frame a tk (emit [Fopen (video_filename (video_pts s)) False] s) =
      (Ret 1, emit [Fopen (audio_filename (audio_frame s)) False]
                (emit [Fopen (video_filename (video_pts s)) False] s))"
    using write_audio_frame_absent [of "emit [Fopen (video_filename (video_pts s)) False] s" a ast tk]
      assms(2,4) by simp
  from iteration_returns [OF v this] show ?thesis
    by (simp add: emit_def)
qed

lemma idle_tick_files [simp]: "v_files idle_tick n = None" "a_files idle_tick n = None"
  by (simp_all add: idle_tick_def no_files_def)

lemma video_exhausted_iff:
  assumes "deref s v = Some st"
  shows "(fst (write_video_frame v tk s) = Ret 1) = (v_files tk (video_filename (video_pts s)) = None)"
proof (cases "v_files tk (video_filename (video_pts s))")
  case None
  with assms show ?thesis by (simp add: write_video_frame_absent)
next
  case (Some content)
  then show ?thesis
    using write_video_frame_overrun [OF assms Some] write_video_frame_present [OF assms Some]
    by (cases "buf_size < length content") simp_all
qed

lemma audio_exhausted_iff:
  assumes "deref s a = Some st"
  shows "(fst (write_audio_frame a tk s) = Ret 1) = (a_files tk (audio_filename (audio_frame s)) = None)"
proof (cases "a_files tk (audio_filename (audio_frame s))")
  case None
  with assms show ?thesis by (simp add: write_audio_frame_absent)
next
  case (Some content)
  then show ?thesis
    using write_audio_frame_overrun [OF assms Some] write_audio_frame_present [OF assms Some]
    by (cases "buf_size < length content") simp_all
qed

lemma video_packet_fields [simp]:
  "size (video_packet st tk s content) = int (length content)"
  "data (video_packet st tk s content) = content"
  "pts (video_packet st tk s content) = now_us (v_clock tk) - begin_timestamp_us s"
  "dts (video_packet st tk s content) = now_us (v_clock tk) - begin_timestamp_us s"
  "stream_index (video_packet st tk s content) = index st"
  by (simp_all add: video_packet_def payload_fread)

lemma audio_packet_fields [simp]:
  "size (audio_packet st tk s content) = int (length content)"
  "data (audio_packet st tk s content) = content"
  "pts (audio_packet st tk s content) = now_us (a_clock tk) - begin_timestamp_us s"
  "dts (audio_packet st tk s content) = now_us (a_clock tk) - begin_timestamp_us s"
  "stream_index (audio_packet st tk s content) = index st"
  by (simp_all add: audio_packet_def payload_fread)

text \<open>The classifier reads the fifth byte of the buffer: the file's own byte when the
  file has one, the byte the buffer held before the read when it has not.\<close>

lemma classify_long_unit:
  "5 \<le> length content \<Longrightarrow> is_IDR_nal (fread buf content) = (content ! 4 AND 0x0f = 0x7)"
  by (simp add: is_IDR_nal_byte fread_def)

lemma classify_short_unit:
  "length content < 5 \<Longrightarrow> is_IDR_nal (fread buf content) = (buf 4 AND 0x0f = 0x7)"
  by (simp add: is_IDR_nal_byte fread_def)

section \<open>The shape of a run\<close>

lemma loop_events_quiet:
  "loop_events b vsto asto ticks evs \<Longrightarrow>
   list_all (\<lambda>e. \<not> is_header e \<and> \<not> is_trailer e \<and> \<not> is_anchor e \<and> \<not> is_new_stream e) evs"
  unfolding loop_events_def list_all_iff
proof
  fix e
  assume a: "\<forall>e\<in>set evs. \<exists>tk\<in>set ticks. tick_event b vsto asto tk e" and "e \<in> set evs"
  then obtain tk where "tick_event b vsto asto tk e" by blast
  then show "\<not> is_header e \<and> \<not> is_trailer e \<and> \<not> is_anchor e \<and> \<not> is_new_stream e"
    by (cases e) (auto simp add: tick_event_def video_event_def audio_event_def)
qed

lemma main_trace_shape:
  assumes "header_written cfg" and "main cfg ticks = (r, s)"
  shows "\<exists>evs. trace s = prologue cfg @ evs @ (if r = Some (Ret 0) then epilogue cfg else [])
     \<and> loop_events (now_us (start_clock cfg)) (Some (video_stream (AVFMT_GLOBALHEADER cfg)))
          (Some (audio_stream (AVFMT_GLOBALHEADER cfg))) ticks evs
     \<and> begin_timestamp_us s = now_us (start_clock cfg)
     \<and> streams s = [video_stream (AVFMT_GLOBALHEADER cfg), audio_stream (AVFMT_GLOBALHEADER cfg)]
     \<and> (r = None \<or> r = Some (Ret 0) \<or> r = Some (Exit 1) \<or> r = Some Fault)"
proof -
  obtain r' s' where p: "poll_loop (Some 0) (Some 1) (True, True) ticks (loop_start cfg) = (r', s')"
    by (cases "poll_loop (Some 0) (Some 1) (True, True) ticks (loop_start cfg)")
  from poll_loop_effect [OF p] obtain evs where
    e: "trace s' = prologue cfg @ evs"
      "loop_events (now_us (start_clock cfg)) (Some (video_stream (AVFMT_GLOBALHEADER cfg)))
          (Some (audio_stream (AVFMT_GLOBALHEADER cfg))) ticks evs"
      "begin_timestamp_us s' = now_us (start_clock cfg)"
      "streams s' = [video_stream (AVFMT_GLOBALHEADER cfg), audio_stream (AVFMT_GLOBALHEADER cfg)]"
      "r' = None \<or> r' = Some (Ret ()) \<or> r' = Some (Exit 1) \<or> r' = Some Fault"
    by auto
  from assms(2) p main_header_written [OF assms(1), of ticks]
  have m: "(r, s) = (case (r', s') of
        (None, s) \<Rightarrow> (None, s)
      | (Some (Ret u), s) \<Rightarrow> (Some (Ret 0), emit (epilogue cfg) s)
      | (Some (Exit c), s) \<Rightarrow> (Some (Exit c), s)
      | (Some Fault, s) \<Rightarrow> (Some Fault, s))"
    by simp
  from e(5) consider "r' = None" | "r' = Some (Ret ())" | "r' = Some (Exit 1)" | "r' = Some Fault"
    by blast
  then show ?thesis
  proof cases
    case 1
    with m have "r = None" "s = s'" by simp_all
    with e show ?thesis by auto
  next
    case 2
    with m have "r = Some (Ret 0)" "s = emit (epilogue cfg) s'" by simp_all
    with e show ?thesis by auto
  next
    case 3
    with m have "r = Some (Exit 1)" "s = s'" by simp_all
    with e show ?thesis by auto
  next
    case 4
    with m have "r = Some Fault" "s = s'" by simp_all
    with e show ?thesis by auto
  qed
qed

lemma main_not_started:
  assumes "\<not> header_written cfg" and "main cfg ticks = (r, s)"
  shows "list_all preparing (trace s) \<and> begin_timestamp_us s = 0
     \<and> (r = Some (Ret 1) \<or> r = Some (Exit 1))"
proof (cases "argc cfg < 2 \<or> \<not> alloc_ok cfg")
  case True
  with assms(2) show ?thesis
    by (auto simp add: main_def init_state_def split: if_splits)
next
  case False
  then have go: "\<not> argc cfg < 2" "alloc_ok cfg" by simp_all
  show ?thesis
  proof (cases "video_stream_ok cfg")
    case False
    with assms(2) go show ?thesis
      by (simp add: main_def main_add_streams_no_video) (auto simp add: init_state_def)
  next
    case True
    note v = True
    show ?thesis
    proof (cases "audio_stream_ok cfg")
      case False
      with assms(2) go v show ?thesis
        by (simp add: main_def main_add_streams_no_audio) (auto simp add: init_state_def)
    next
      case True
      with assms(1) go v
      have bad: "(\<not> AVFMT_NOFILE cfg \<and> avio_open_ret cfg < 0) \<or> write_header_ret cfg < 0"
        by (auto simp add: header_written_def)
      from assms(2) go v True show ?thesis
        using bad
        by (simp add: main_def main_add_streams_ok Let_def split: if_splits)
          (auto simp add: registered_def)
    qed
  qed
qed

lemma main_registered:
  assumes "2 \<le> argc cfg" "alloc_ok cfg" "video_stream_ok cfg" "audio_stream_ok cfg"
    and "\<not> header_written cfg" and "main cfg ticks = (r, s)"
  shows "\<exists>evs. trace s = [NewStream AVMEDIA_TYPE_VIDEO 0, NewStream AVMEDIA_TYPE_AUDIO 1] @ evs
     \<and> list_all (\<lambda>e. \<not> is_new_stream e \<and> \<not> is_submit e) evs
     \<and> streams s = [video_stream (AVFMT_GLOBALHEADER cfg), audio_stream (AVFMT_GLOBALHEADER cfg)]"
proof -
  from assms(1-5)
  have bad: "(\<not> AVFMT_NOFILE cfg \<and> avio_open_ret cfg < 0) \<or> write_header_ret cfg < 0"
    by (auto simp add: header_written_def)
  from assms(1) have "\<not> argc cfg < 2" by simp
  with assms(2-4,6) bad show ?thesis
    by (simp add: main_def main_add_streams_ok Let_def split: if_splits)
      (auto simp add: registered_def)
qed

lemma header_first_shape:
  assumes "list_all (\<lambda>e. \<not> is_header e \<and> \<not> is_submit e) pre"
    and "list_all (\<lambda>e. \<not> is_header e) post"
  shows "header_first (pre @ WriteHeader h # post)"
proof -
  have "dropWhile (\<lambda>e. \<not> is_header e \<and> \<not> is_submit e) (pre @ WriteHeader h # post)
      = WriteHeader h # post"
    using assms(1) by (simp add: dropWhile_append2 list_all_iff)
  with assms(2) show ?thesis
    by (simp add: header_first_def list_ex_iff list_all_iff)
qed

lemma trailer_last_shape:
  assumes "list_all (\<lambda>e. \<not> is_trailer e) pre"
    and "list_all (\<lambda>e. \<not> is_trailer e \<and> \<not> is_submit e) post"
  shows "trailer_last (pre @ WriteTrailer # post)"
proof -
  have "dropWhile (\<lambda>e. \<not> is_trailer e) (pre @ WriteTrailer # post) = WriteTrailer # post"
    using assms(1) by (simp add: dropWhile_append2 list_all_iff)
  with assms(2) show ?thesis
    by (simp add: trailer_last_def list_ex_iff list_all_iff)
qed

lemma prologue_split:
  "\<exists>pre. prologue cfg = pre @ [WriteHeader (write_header_ret cfg), SetAnchor (now_us (start_clock cfg))]
     \<and> list_all (\<lambda>e. \<not> is_header e \<and> \<not> is_submit e \<and> \<not> is_trailer e \<and> \<not> is_anchor e
                      \<and> \<not> is_fopen e \<and> e \<noteq> AvioClose) pre
     \<and> filter is_new_stream pre = [NewStream AVMEDIA_TYPE_VIDEO 0, NewStream AVMEDIA_TYPE_AUDIO 1]"
  by (rule exI [of _ "[NewStream AVMEDIA_TYPE_VIDEO 0, NewStream AVMEDIA_TYPE_AUDIO 1]
        @ (if AVFMT_NOFILE cfg then [] else [AvioOpen (avio_open_ret cfg)])"])
    (simp add: prologue_def)

section \<open>A complete run\<close>

lemma env_ok_fields [simp]:
  "header_written env_ok" "AVFMT_GLOBALHEADER env_ok" "\<not> AVFMT_NOFILE env_ok"
  "argc env_ok = 2" "alloc_ok env_ok" "video_stream_ok env_ok" "audio_stream_ok env_ok"
  "start_clock env_ok = \<lparr>tv_sec = 1700000000, tv_usec = 0\<rparr>"
  "write_header_ret env_ok = 0" "avio_open_ret env_ok = 0"
  by (simp_all add: header_written_def env_ok_def)

lemma stream_fields [simp]:
  "kind (video_stream gh) = AVMEDIA_TYPE_VIDEO" "index (video_stream gh) = 0"
  "kind (audio_stream gh) = AVMEDIA_TYPE_AUDIO" "index (audio_stream gh) = 1"
  "time_base (video_stream gh) = \<lparr>num = 1, den = 1000000\<rparr>"
  "time_base (audio_stream gh) = \<lparr>num = 1, den = 44100\<rparr>"
  by (simp_all add: video_stream_def audio_stream_def)

lemma audio_packet_state:
  "begin_timestamp_us s' = begin_timestamp_us s \<Longrightarrow>
   audio_packet st tk s' content = audio_packet st tk s content"
  by (simp add: audio_packet_def)

lemma iteration_both_present:
  assumes "deref s v = Some vst" and "deref s a = Some ast"
    and "v_files tk (video_filename (video_pts s)) = Some vc" and "length vc \<le> buf_size"
    and "a_files tk (audio_filename (audio_frame s)) = Some ac" and "length ac \<le> buf_size"
    and "\<not> v_ret tk < 0" and "\<not> a_write tk < 0"
  shows "iteration v a tk s =
    (Ret (True, True),
     emit [Fopen (video_filename (video_pts s)) True,
           Submit (kind vst) (video_packet vst tk s vc) (v_write tk),
           Fopen (audio_filename (audio_frame s)) True,
           Submit (kind ast) (audio_packet ast tk s ac) (a_write tk),
           Usleep]
       (s\<lparr>video_pts := video_pts s + 1, audio_frame := audio_frame s + 1\<rparr>))"
proof -
  let ?s1 = "emit [Fopen (video_filename (video_pts s)) True,
                   Submit (kind vst) (video_packet vst tk s vc) (v_write tk)]
               (s\<lparr>video_pts := video_pts s + 1\<rparr>)"
  let ?s2 = "emit [Fopen (audio_filename (audio_frame s)) True,
                   Submit (kind ast) (audio_packet ast tk s ac) (a_write tk)]
               (?s1\<lparr>audio_frame := audio_frame s + 1\<rparr>)"
  have v1: "write_video_frame v tk s = (Ret 0, ?s1)"
    using write_video_frame_present [OF assms(1,3,4)] assms(7) by simp
  have p: "audio_packet ast tk ?s1 ac = audio_packet ast tk s ac"
    by (rule audio_packet_state) simp
  have a1: "write_audio_frame a tk ?s1 = (Ret 0, ?s2)"
    using write_audio_frame_present [of ?s1 a ast tk ac] assms(2,5,6,8) by (simp add: p)
  from iteration_returns [OF v1 a1] show ?thesis
    by (simp add: emit_def)
qed

lemma demo_first_iteration:
  "iteration (Some 0) (Some 1) both_tick (loop_start env_ok) = (Ret (True, True), demo_first)"
proof -
  let ?s0 = "loop_start env_ok"
  have fv: "v_files both_tick (video_filename (video_pts ?s0)) = Some sps_unit"
    and fa: "a_files both_tick (audio_filename (audio_frame ?s0)) = Some [0xff, 0xf1]"
    by (simp_all add: both_tick_def)
  have lv: "length sps_unit \<le> buf_size" and la: "length [0xff, 0xf1 :: byte] \<le> buf_size"
    by (simp_all add: sps_unit_def buf_size_def)
  have key: "is_IDR_nal (fread (v_buf both_tick) sps_unit)"
    by (simp add: classify_long_unit sps_unit_def)
  have pv: "video_packet (video_stream True) both_tick ?s0 sps_unit =
      \<lparr>pts = 995000, dts = 995000, stream_index = 0, flags = AV_PKT_FLAG_KEY, size = 6,
       data = [0, 0, 0, 1, 0x67, 0x42]\<rparr>"
    unfolding video_packet_def payload_fread
    by (simp add: key) (simp add: both_tick_def now_us_def video_stream_def sps_unit_def)
  have pa: "audio_packet (audio_stream True) both_tick ?s0 [0xff, 0xf1] =
      \<lparr>pts = 1000000, dts = 1000000, stream_index = 1, flags = 0, size = 2, data = [0xff, 0xf1]\<rparr>"
    unfolding audio_packet_def payload_fread
    by (simp add: both_tick_def now_us_def audio_stream_def)
  have r: "\<not> v_ret both_tick < 0" "\<not> a_write both_tick < 0"
    "v_write both_tick = 0" "a_write both_tick = 0"
    by (simp_all add: both_tick_def idle_tick_def)
  have d: "deref ?s0 (Some 0) = Some (video_stream True)"
    "deref ?s0 (Some 1) = Some (audio_stream True)"
    by simp_all
  from iteration_both_present [OF d fv lv fa la r(1,2)] show ?thesis
    by (simp add: pv pa r demo_first_def)
qed

lemma demo_first_fields [simp]:
  "video_pts demo_first = 1" "audio_frame demo_first = 1"
  "begin_timestamp_us demo_first = now_us (start_clock env_ok)"
  "deref demo_first (Some 0) = Some (video_stream True)"
  "deref demo_first (Some (Suc 0)) = Some (audio_stream True)"
  by (simp_all add: demo_first_def)

lemma demo_second_iteration:
  "iteration (Some 0) (Some 1) later_tick demo_first = (Ret (True, True), demo_second)"
proof -
  have fv: "v_files later_tick (video_filename (video_pts demo_first)) = Some slice_unit"
    and fa: "a_files later_tick (audio_filename (audio_frame demo_first)) = Some [0xff, 0xf1]"
    by (simp_all add: later_tick_def)
  have lv: "length slice_unit \<le> buf_size" and la: "length [0xff, 0xf1 :: byte] \<le> buf_size"
    by (simp_all add: slice_unit_def buf_size_def)
  have nokey: "\<not> is_IDR_nal (fread (v_buf later_tick) slice_unit)"
    by (simp add: classify_long_unit slice_unit_def)
  have pv: "video_packet (video_stream True) later_tick demo_first slice_unit =
      \<lparr>pts = 1040000, dts = 1040000, stream_index = 0, flags = 0, size = 6,
       data = [0, 0, 0, 1, 0x41, 0x9a]\<rparr>"
    unfolding video_packet_def payload_fread
    by (simp add: nokey) (simp add: later_tick_def now_us_def video_stream_def slice_unit_def)
  have pa: "audio_packet (audio_stream True) later_tick demo_first [0xff, 0xf1] =
      \<lparr>pts = 1045000, dts = 1045000, stream_index = 1, flags = 0, size = 2, data = [0xff, 0xf1]\<rparr>"
    unfolding audio_packet_def payload_fread
    by (simp add: later_tick_def now_us_def audio_stream_def)
  have r: "\<not> v_ret later_tick < 0" "\<not> a_write later_tick < 0"
    "v_write later_tick = 0" "a_write later_tick = 0"
    by (simp_all add: later_tick_def idle_tick_def)
  have d: "deref demo_first (Some 0) = Some (video_stream True)"
    "deref demo_first (Some 1) = Some (audio_stream True)"
    by simp_all
  from iteration_both_present [OF d fv lv fa la r(1,2)] show ?thesis
    by (simp add: pv pa r demo_second_def)
qed

lemma demo_second_fields [simp]:
  "video_pts demo_second = 2" "audio_frame demo_second = 2"
  "deref demo_second (Some 0) = Some (video_stream True)"
  "deref demo_second (Some (Suc 0)) = Some (audio_stream True)"
  by (simp_all add: demo_second_def)

lemma demo_third_iteration:
  "iteration (Some 0) (Some 1) idle_tick demo_second = (Ret (False, False), demo_third)"
  using iteration_idle [of demo_second "Some 0" "video_stream True" "Some 1" "audio_stream True"
      idle_tick]
  by (simp add: demo_third_def)

lemma demo_loop:
  "poll_loop (Some 0) (Some 1) (True, True) demo_ticks (loop_start env_ok)
     = (Some (Ret ()), demo_third)"
  using demo_first_iteration demo_second_iteration demo_third_iteration
  by (simp add: demo_ticks_def)

lemma demo_run: "main env_ok demo_ticks = (Some (Ret 0), demo_final)"
  using main_header_written [of env_ok demo_ticks] demo_loop
  by (simp add: demo_final_def)

lemma demo_trace:
  "trace demo_final =
     [NewStream AVMEDIA_TYPE_VIDEO 0, NewStream AVMEDIA_TYPE_AUDIO 1, AvioOpen 0,
      WriteHeader 0, SetAnchor 1700000000000000,
      Fopen (video_filename 0) True,
      Submit AVMEDIA_TYPE_VIDEO
        \<lparr>pts = 995000, dts = 995000, stream_index = 0, flags = AV_PKT_FLAG_KEY, size = 6,
         data = [0, 0, 0, 1, 0x67, 0x42]\<rparr> 0,
      Fopen (audio_filename 0) True,
      Submit AVMEDIA_TYPE_AUDIO
        \<lparr>pts = 1000000, dts = 1000000, stream_index = 1, flags = 0, size = 2,
         data = [0xff, 0xf1]\<rparr> 0,
      Usleep,
      Fopen (video_filename 1) True,
      Submit AVMEDIA_TYPE_VIDEO
        \<lparr>pts = 1040000, dts = 1040000, stream_index = 0, flags = 0, size = 6,
         data = [0, 0, 0, 1, 0x41, 0x9a]\<rparr> 0,
      Fopen (audio_filename 1) True,
      Submit AVMEDIA_TYPE_AUDIO
        \<lparr>pts = 1045000, dts = 1045000, stream_index = 1, flags = 0, size = 2,
         data = [0xff, 0xf1]\<rparr> 0,
      Usleep,
      Fopen (video_filename 2) False, Fopen (audio_filename 2) False, Usleep,
      WriteTrailer, AvioClose, FreeContext]"
  by (simp add: demo_final_def demo_third_def demo_second_def demo_first_def epilogue_def
      prologue_def now_us_def)

lemma demo_streams: "streams demo_final = [video_stream True, audio_stream True]"
  and demo_anchor: "begin_timestamp_us demo_final = 1700000000000000"
  by (simp_all add: demo_final_def demo_third_def demo_second_def demo_first_def now_us_def)

section \<open>Events of the loop\<close>

lemma anchored_shape:
  assumes "list_all (\<lambda>e. \<not> is_header e \<and> \<not> is_submit e \<and> \<not> is_trailer e \<and> \<not> is_anchor e
                      \<and> \<not> is_fopen e \<and> e \<noteq> AvioClose) pre"
    and "0 \<le> h"
  shows "anchored (pre @ WriteHeader h # SetAnchor b # rest)"
  using assms(1)
proof (induction pre)
  case Nil
  with assms(2) show ?case by simp
next
  case (Cons e pre)
  then show ?case by (cases e) simp_all
qed

lemma tick_event_indexed:
  assumes "tick_event b (Some (video_stream gh)) (Some (audio_stream gh)) tk e"
  shows "indexed e"
proof (cases e)
  case (Submit k p r)
  with assms show ?thesis
    by (auto simp add: tick_event_def video_event_def audio_event_def video_stream_def
        audio_stream_def)
qed simp_all

lemma loop_events_indexed:
  "loop_events b (Some (video_stream gh)) (Some (audio_stream gh)) ticks evs \<Longrightarrow>
   list_all indexed evs"
  unfolding loop_events_def list_all_iff by (blast intro: tick_event_indexed)

lemma not_submit_indexed: "\<not> is_submit e \<Longrightarrow> indexed e"
  by (cases e) simp_all

lemma epilogue_inert:
  "list_all (\<lambda>e. \<not> is_submit e \<and> \<not> is_anchor e \<and> \<not> is_new_stream e \<and> \<not> is_header e) (epilogue cfg)"
  by (simp add: epilogue_def)

section \<open>How the loop goes on and ends\<close>

lemma poll_loop_flags:
  "ev \<or> ea \<Longrightarrow> poll_loop v a (ev, ea) ticks s = poll_loop v a (True, True) ticks s"
  by (cases ticks) simp_all

lemma poll_loop_ends:
  assumes "poll_loop v a fl ticks s = (Some (Ret ()), s')" and "fst fl \<or> snd fl"
  shows "\<exists>pre tk post s0. ticks = pre @ tk # post \<and> iteration v a tk s0 = (Ret (False, False), s')"
  using assms
proof (induction ticks arbitrary: fl s)
  case Nil
  then show ?case by (cases fl) (simp split: if_splits)
next
  case (Cons tk ticks)
  obtain ev ea where fl: "fl = (ev, ea)" by (cases fl)
  with Cons.prems(2) have go: "ev \<or> ea" by simp
  obtain ri s1 where it: "iteration v a tk s = (ri, s1)"
    by (cases "iteration v a tk s")
  show ?case
  proof (cases ri)
    case (Ret fl')
    with Cons.prems(1) fl go it have rec: "poll_loop v a fl' ticks s1 = (Some (Ret ()), s')"
      by simp
    show ?thesis
    proof (cases "fst fl' \<or> snd fl'")
      case True
      from Cons.IH [OF rec True] obtain pre tk' post s0 where
        "ticks = pre @ tk' # post" "iteration v a tk' s0 = (Ret (False, False), s')"
        by blast
      then have "tk # ticks = (tk # pre) @ tk' # post" by simp
      with \<open>iteration v a tk' s0 = (Ret (False, False), s')\<close> show ?thesis by blast
    next
      case False
      then have f: "fl' = (False, False)" by (cases fl') simp
      with rec have "s' = s1" by (cases ticks) simp_all
      with it Ret f have "iteration v a tk s = (Ret (False, False), s')" by simp
      moreover have "tk # ticks = [] @ tk # ticks" by simp
      ultimately show ?thesis by blast
    qed
  next
    case (Exit c)
    with Cons.prems(1) fl go it show ?thesis by simp
  next
    case Fault
    with Cons.prems(1) fl go it show ?thesis by simp
  qed
qed

lemma filter_is_fopen_simps [simp]:
  "filter is_fopen (Fopen f b # tr) = Fopen f b # filter is_fopen tr"
  "filter is_fopen (Submit k p r # tr) = filter is_fopen tr"
  by simp_all

lemma iteration_polls_both:
  assumes "deref s v = Some vst" and "deref s a = Some ast"
    and "iteration v a tk s = (Ret fl, s')"
  shows "filter is_fopen (added s s') =
     [Fopen (video_filename (video_pts s)) (fst fl), Fopen (audio_filename (audio_frame s)) (snd fl)]
    \<and> fst fl = (v_files tk (video_filename (video_pts s)) \<noteq> None)
    \<and> snd fl = (a_files tk (audio_filename (audio_frame s)) \<noteq> None)"
proof -
  obtain rv s1 where v: "write_video_frame v tk s = (rv, s1)"
    by (cases "write_video_frame v tk s")
  obtain ra s2 where a: "write_audio_frame a tk s1 = (ra, s2)"
    by (cases "write_audio_frame a tk s1")
  from assms(3) v obtain x where x: "rv = Ret x"
    by (cases rv) (simp_all add: iteration_def then_do_def)
  from assms(3) v a x obtain y where y: "ra = Ret y"
    by (cases ra) (simp_all add: iteration_def then_do_def)
  from assms(3) v a x y have fl: "fl = (x = 0, y = 0)" and s': "s' = emit [Usleep] s2"
    by (simp_all add: iteration_def then_do_def)
  have vres: "(x = 0 \<and> v_files tk (video_filename (video_pts s)) \<noteq> None
       \<and> filter is_fopen (added s s1) = [Fopen (video_filename (video_pts s)) True]
       \<or> x = 1 \<and> v_files tk (video_filename (video_pts s)) = None
       \<and> filter is_fopen (added s s1) = [Fopen (video_filename (video_pts s)) False])
      \<and> audio_frame s1 = audio_frame s \<and> streams s1 = streams s
      \<and> trace s1 = trace s @ added s s1"
  proof (cases "v_files tk (video_filename (video_pts s))")
    case None
    from write_video_frame_absent [OF assms(1) None] v x show ?thesis
      by (auto simp add: None added_def)
  next
    case (Some content)
    show ?thesis
    proof (cases "buf_size < length content")
      case True
      from write_video_frame_overrun [OF assms(1) Some True] v x show ?thesis by simp
    next
      case False
      then have "length content \<le> buf_size" by simp
      from write_video_frame_present [OF assms(1) Some this] v x show ?thesis
        by (auto simp add: Some added_def split: if_splits)
    qed
  qed
  then have d: "deref s1 a = Some ast"
    using assms(2) deref_cong [of s1 s a] by simp
  have ares: "(y = 0 \<and> a_files tk (audio_filename (audio_frame s1)) \<noteq> None
       \<and> filter is_fopen (added s1 s2) = [Fopen (audio_filename (audio_frame s1)) True]
       \<or> y = 1 \<and> a_files tk (audio_filename (audio_frame s1)) = None
       \<and> filter is_fopen (added s1 s2) = [Fopen (audio_filename (audio_frame s1)) False])
      \<and> trace s2 = trace s1 @ added s1 s2"
  proof (cases "a_files tk (audio_filename (audio_frame s1))")
    case None
    from write_audio_frame_absent [OF d None] a y show ?thesis
      by (auto simp add: None added_def)
  next
    case (Some content)
    show ?thesis
    proof (cases "buf_size < length content")
      case True
      from write_audio_frame_overrun [OF d Some True] a y show ?thesis by simp
    next
      case False
      then have "length content \<le> buf_size" by simp
      from write_audio_frame_present [OF d Some this] a y show ?thesis
        by (auto simp add: Some added_def split: if_splits)
    qed
  qed
  have "added s s' = added s s1 @ added s1 s2 @ [Usleep]"
  proof -
    have "trace s' = trace s @ (added s s1 @ added s1 s2 @ [Usleep])"
      using vres ares by (simp add: s')
    then show ?thesis
      by (simp add: added_def)
  qed
  then have "filter is_fopen (added s s')
      = filter is_fopen (added s s1) @ filter is_fopen (added s1 s2)"
    by simp
  with vres ares show ?thesis
    by (auto simp add: fl)
qed

section \<open>Clock readings as integers\<close>

lemma sint_word_of_int_64:
  assumes "- (2 ^ 63) \<le> k" and "k < 2 ^ 63"
  shows "sint (word_of_int k :: 64 word) = k"
proof -
  have "sint (word_of_int k :: 64 word) = signed_take_bit 63 k"
    by (simp add: sint_sbintrunc')
  also have "\<dots> = k"
    using assms by (intro signed_take_bit_int_eq_self) simp_all
  finally show ?thesis .
qed

lemma now_us_of_int: "now_us tv = word_of_int (us_of tv)"
  by (simp add: now_us_def us_of_def)

lemma elapsed_sint:
  assumes "clock_ok t0" and "clock_ok t" and "us_of t0 \<le> us_of t"
  shows "sint (now_us t - now_us t0) = us_of t - us_of t0"
proof -
  have "now_us t - now_us t0 = word_of_int (us_of t - us_of t0)"
    by (simp add: now_us_of_int)
  moreover have "- (2 ^ 63) \<le> us_of t - us_of t0" "us_of t - us_of t0 < 2 ^ 63"
    using assms by (simp_all add: clock_ok_def)
  ultimately show ?thesis
    by (simp only: sint_word_of_int_64)
qed

section \<open>Time stamps in the order of submission\<close>

lemma stamps_simps [simp]:
  "stamps k [] = []"
  "stamps k (e # tr) = stamp_of k e @ stamps k tr"
  "stamps k (xs @ ys) = stamps k xs @ stamps k ys"
  by (simp_all add: stamps_def)

lemma stamps_not_submit: "list_all (\<lambda>e. \<not> is_submit e) evs \<Longrightarrow> stamps k evs = []"
proof (induction evs)
  case Nil
  show ?case by simp
next
  case (Cons e evs)
  then show ?case by (cases e) simp_all
qed

lemma stamps_video_event:
  "list_all (video_event b sto tk) evs \<Longrightarrow>
   list_all (\<lambda>x. x = sint (now_us (v_clock tk) - b)) (stamps k evs)"
proof (induction evs)
  case Nil
  show ?case by simp
next
  case (Cons e evs)
  then show ?case
    by (cases e; cases sto) (simp_all add: video_event_def)
qed

lemma stamps_audio_event:
  "list_all (audio_event b sto tk) evs \<Longrightarrow>
   list_all (\<lambda>x. x = sint (now_us (a_clock tk) - b)) (stamps k evs)"
proof (induction evs)
  case Nil
  show ?case by simp
next
  case (Cons e evs)
  then show ?case
    by (cases e; cases sto) (simp_all add: audio_event_def)
qed

lemma sorted_append_const:
  fixes xs :: "int list"
  assumes "sorted xs" and "\<forall>x\<in>set xs. x \<le> m" and "list_all (\<lambda>y. y = c) ys" and "m \<le> c"
  shows "sorted (xs @ ys) \<and> (\<forall>x\<in>set (xs @ ys). x \<le> c)"
proof -
  have "sorted ys"
    using assms(3) by (induction ys) (auto simp add: list_all_iff)
  with assms show ?thesis
    by (fastforce simp add: sorted_append list_all_iff)
qed

lemma readings_Cons [simp]: "readings (tk # ticks) = v_clock tk # a_clock tk # readings ticks"
  and readings_Nil [simp]: "readings [] = []"
  by (simp_all add: readings_def)

lemma poll_loop_sorted:
  assumes "poll_loop v a fl ticks s = (r, s')"
    and "begin_timestamp_us s = now_us t0" and "clock_ok t0"
    and "list_all clock_ok (readings ticks)"
    and "sorted (map us_of (readings ticks))"
    and "\<forall>t\<in>set (readings ticks). us_of t0 \<le> us_of t \<and> m \<le> us_of t - us_of t0"
    and "sorted (stamps k (trace s))" and "\<forall>x\<in>set (stamps k (trace s)). x \<le> m"
  shows "sorted (stamps k (trace s'))"
  using assms
proof (induction ticks arbitrary: fl s m)
  case Nil
  then show ?case by (cases fl) (auto split: if_splits)
next
  case (Cons tk ticks)
  obtain ev ea where fl: "fl = (ev, ea)" by (cases fl)
  show ?case
  proof (cases "ev \<or> ea")
    case False
    with Cons.prems(1,7) fl show ?thesis by auto
  next
    case True
    let ?xv = "us_of (v_clock tk) - us_of t0"
    let ?xa = "us_of (a_clock tk) - us_of t0"
    obtain ri s1 where it: "iteration v a tk s = (ri, s1)"
      by (cases "iteration v a tk s")
    from iteration_split [OF it] obtain evs1 evs2 where
      e: "trace s1 = trace s @ evs1 @ evs2"
        "list_all (video_event (begin_timestamp_us s) (deref s v) tk) evs1"
        "list_all (audio_event (begin_timestamp_us s) (deref s a) tk) evs2"
        "begin_timestamp_us s1 = begin_timestamp_us s"
      by blast
    have ok: "clock_ok (v_clock tk)" "clock_ok (a_clock tk)"
      and le: "us_of t0 \<le> us_of (v_clock tk)" "us_of t0 \<le> us_of (a_clock tk)"
        "m \<le> ?xv" "us_of (v_clock tk) \<le> us_of (a_clock tk)"
      using Cons.prems(4,5,6) by simp_all
    have xv: "sint (now_us (v_clock tk) - begin_timestamp_us s) = ?xv"
      and xa: "sint (now_us (a_clock tk) - begin_timestamp_us s) = ?xa"
      using Cons.prems(2,3) ok le by (simp_all add: elapsed_sint)
    have s1: "list_all (\<lambda>x. x = ?xv) (stamps k evs1)"
      using stamps_video_event [OF e(2), of k] by (simp add: xv)
    have s2: "list_all (\<lambda>x. x = ?xa) (stamps k evs2)"
      using stamps_audio_event [OF e(3), of k] by (simp add: xa)
    from sorted_append_const [OF Cons.prems(7,8) s1 le(3)]
    have a1: "sorted (stamps k (trace s) @ stamps k evs1)"
      "\<forall>x\<in>set (stamps k (trace s) @ stamps k evs1). x \<le> ?xv"
      by blast+
    have "?xv \<le> ?xa" using le(4) by simp
    from sorted_append_const [OF a1 s2 this]
    have a2: "sorted (stamps k (trace s1))" "\<forall>x\<in>set (stamps k (trace s1)). x \<le> ?xa"
      by (simp_all add: e(1))
    show ?thesis
    proof (cases ri)
      case (Ret fl')
      with Cons.prems(1) fl True it have rec: "poll_loop v a fl' ticks s1 = (r, s')"
        by simp
      have b1: "begin_timestamp_us s1 = now_us t0"
        using e(4) Cons.prems(2) by simp
      have r1: "list_all clock_ok (readings ticks)" "sorted (map us_of (readings ticks))"
        using Cons.prems(4,5) by simp_all
      have r2: "\<forall>t\<in>set (readings ticks). us_of t0 \<le> us_of t \<and> ?xa \<le> us_of t - us_of t0"
        using Cons.prems(5,6) by auto
      from Cons.IH [OF rec b1 Cons.prems(3) r1 r2 a2] show ?thesis .
    next
      case (Exit c)
      with Cons.prems(1) fl True it have "s' = s1" by simp
      with a2 show ?thesis by simp
    next
      case Fault
      with Cons.prems(1) fl True it have "s' = s1" by simp
      with a2 show ?thesis by simp
    qed
  qed
qed

lemma preparing_not_submit: "preparing e \<Longrightarrow> \<not> is_submit e"
  by (cases e) simp_all

lemma stamps_prologue [simp]: "stamps k (prologue cfg) = []"
  by (rule stamps_not_submit) (simp add: prologue_def)

lemma stamps_epilogue [simp]: "stamps k (epilogue cfg) = []"
  by (rule stamps_not_submit) (simp add: epilogue_def)

section \<open>The status of a submission\<close>

text \<open>The result of \<^verbatim>\<open>write_video_frame\<close> does not depend on the status of the
  submission; that of \<^verbatim>\<open>write_audio_frame\<close> does.\<close>

lemma video_write_status_ignored:
  "fst (write_video_frame ost (tk\<lparr>v_write := w\<rparr>) s) = fst (write_video_frame ost tk s)"
  by (simp add: write_video_frame_def write_frame_def Let_def split: option.split)

lemma audio_write_status_decides:
  assumes "deref s ost = Some st" and "a_files tk (audio_filename (audio_frame s)) = Some content"
    and "length content \<le> buf_size"
  shows "fst (write_audio_frame ost tk s) = (if a_write tk < 0 then Exit 1 else Ret 0)"
  using write_audio_frame_present [OF assms] by simp

section \<open>Each stamp is the reading of its own iteration\<close>

lemma added_same [simp]: "added s s = []"
  by (simp add: added_def)

lemma added_append: "trace s' = trace s @ evs \<Longrightarrow> added s s' = evs"
  by (simp add: added_def)

lemma write_video_frame_no_usleep:
  assumes "write_video_frame ost tk s = (r, s')"
  shows "Usleep \<notin> set (added s s')"
proof (cases "deref s ost")
  case None
  with assms show ?thesis by (simp add: write_video_frame_null)
next
  case (Some st)
  show ?thesis
  proof (cases "v_files tk (video_filename (video_pts s))")
    case None
    from write_video_frame_absent [OF Some None] assms show ?thesis by auto
  next
    case (Some content)
    note found = Some
    show ?thesis
    proof (cases "buf_size < length content")
      case True
      from write_video_frame_overrun [OF \<open>deref s ost = Some st\<close> found True] assms
      show ?thesis by auto
    next
      case False
      then have "length content \<le> buf_size" by simp
      from write_video_frame_present [OF \<open>deref s ost = Some st\<close> found this] assms
      show ?thesis by auto
    qed
  qed
qed

lemma write_audio_frame_no_usleep:
  assumes "write_audio_frame ost tk s = (r, s')"
  shows "Usleep \<notin> set (added s s')"
proof (cases "deref s ost")
  case None
  with assms show ?thesis by (simp add: write_audio_frame_null)
next
  case (Some st)
  show ?thesis
  proof (cases "a_files tk (audio_filename (audio_frame s))")
    case None
    from write_audio_frame_absent [OF Some None] assms show ?thesis by auto
  next
    case (Some content)
    note found = Some
    show ?thesis
    proof (cases "buf_size < length content")
      case True
      from write_audio_frame_overrun [OF \<open>deref s ost = Some st\<close> found True] assms
      show ?thesis by auto
    next
      case False
      then have "length content \<le> buf_size" by simp
      from write_audio_frame_present [OF \<open>deref s ost = Some st\<close> found this] assms
      show ?thesis by auto
    qed
  qed
qed

text \<open>One iteration adds a block of events of its two writers, none of them the
  \<^verbatim>\<open>usleep\<close>, and then the \<^verbatim>\<open>usleep\<close> if both writers returned.\<close>

lemma iteration_block:
  assumes "iteration v a tk s = (r, s')"
  shows "\<exists>blk. trace s' = trace s @ blk @ (if \<exists>fl. r = Ret fl then [Usleep] else [])
           \<and> list_all (\<lambda>e. tick_event (begin_timestamp_us s) (deref s v) (deref s a) tk e
                             \<and> e \<noteq> Usleep) blk
           \<and> begin_timestamp_us s' = begin_timestamp_us s \<and> streams s' = streams s"
proof -
  let ?P = "\<lambda>e. tick_event (begin_timestamp_us s) (deref s v) (deref s a) tk e \<and> e \<noteq> Usleep"
  obtain rv s1 where v: "write_video_frame v tk s = (rv, s1)"
    by (cases "write_video_frame v tk s")
  from write_video_frame_effect [OF v] obtain evs1 where
    e1: "trace s1 = trace s @ evs1"
      "list_all (video_event (begin_timestamp_us s) (deref s v) tk) evs1"
      "begin_timestamp_us s1 = begin_timestamp_us s" "streams s1 = streams s"
      "rv = Ret 0 \<or> rv = Ret 1 \<or> rv = Exit 1 \<or> rv = Fault"
    by blast
  have "added s s1 = evs1"
    using e1(1) by (rule added_append)
  with write_video_frame_no_usleep [OF v] have n1: "Usleep \<notin> set evs1" by simp
  have b1: "list_all ?P evs1"
    using e1(2) n1 by (auto simp add: list_all_iff tick_event_def)
  show ?thesis
  proof (cases "\<exists>x. rv = Ret x")
    case False
    with e1(5) have "rv = Exit 1 \<or> rv = Fault" by auto
    with assms v have "s' = s1" "r = Exit 1 \<or> r = Fault"
      by (auto simp add: iteration_def then_do_def)
    with e1 b1 have "trace s' = trace s @ evs1 @ (if \<exists>fl. r = Ret fl then [Usleep] else [])
        \<and> list_all ?P evs1
        \<and> begin_timestamp_us s' = begin_timestamp_us s \<and> streams s' = streams s"
      by auto
    then show ?thesis by blast
  next
    case True
    then obtain x where x: "rv = Ret x" by blast
    obtain ra s2 where a: "write_audio_frame a tk s1 = (ra, s2)"
      by (cases "write_audio_frame a tk s1")
    from write_audio_frame_effect [OF a] obtain evs2 where
      e2: "trace s2 = trace s1 @ evs2"
        "list_all (audio_event (begin_timestamp_us s1) (deref s1 a) tk) evs2"
        "begin_timestamp_us s2 = begin_timestamp_us s1" "streams s2 = streams s1"
        "ra = Ret 0 \<or> ra = Ret 1 \<or> ra = Exit 1 \<or> ra = Fault"
      by blast
    have "added s1 s2 = evs2"
      using e2(1) by (rule added_append)
    with write_audio_frame_no_usleep [OF a] have n2: "Usleep \<notin> set evs2" by simp
    have d: "deref s1 a = deref s a"
      using e1(4) by (rule deref_cong)
    have b2: "list_all ?P evs2"
      using e2(2) n2 by (auto simp add: list_all_iff tick_event_def e1(3) d)
    have b: "list_all ?P (evs1 @ evs2)"
      using b1 b2 by simp
    show ?thesis
    proof (cases "\<exists>y. ra = Ret y")
      case False
      with e2(5) have "ra = Exit 1 \<or> ra = Fault" by auto
      with assms v a x have "s' = s2" "r = Exit 1 \<or> r = Fault"
        by (auto simp add: iteration_def then_do_def)
      with e1 e2 b have "trace s' = trace s @ (evs1 @ evs2) @ (if \<exists>fl. r = Ret fl then [Usleep] else [])
          \<and> list_all ?P (evs1 @ evs2)
          \<and> begin_timestamp_us s' = begin_timestamp_us s \<and> streams s' = streams s"
        by auto
      then show ?thesis by blast
    next
      case True
      then obtain y where "ra = Ret y" by blast
      with assms v a x have "s' = emit [Usleep] s2" "r = Ret (x = 0, y = 0)"
        by (auto simp add: iteration_def then_do_def)
      with e1 e2 b have "trace s' = trace s @ (evs1 @ evs2) @ (if \<exists>fl. r = Ret fl then [Usleep] else [])
          \<and> list_all ?P (evs1 @ evs2)
          \<and> begin_timestamp_us s' = begin_timestamp_us s \<and> streams s' = streams s"
        by auto
      then show ?thesis by blast
    qed
  qed
qed

lemma tick_event_stamped_at:
  assumes "tick_event b (Some (video_stream gh)) (Some (audio_stream gh)) tk e"
  shows "stamped_at b tk e"
proof (cases e)
  case (Submit k p r)
  with assms show ?thesis
    by (auto simp add: tick_event_def video_event_def audio_event_def)
qed simp_all

lemma stamped_at_not_submit: "\<not> is_submit e \<Longrightarrow> stamped_at b tk e"
  by (cases e) simp_all

lemma stamped_run_quiet: "list_all (\<lambda>e. \<not> is_submit e) evs \<Longrightarrow> stamped_run b ticks evs"
proof (induction evs arbitrary: ticks)
  case Nil
  show ?case by simp
next
  case (Cons e evs)
  then show ?case
    by (cases ticks) (simp_all add: stamped_at_not_submit)
qed

lemma stamped_run_block:
  "list_all (\<lambda>e. stamped_at b tk e \<and> e \<noteq> Usleep) blk \<Longrightarrow>
   stamped_run b (tk # ticks) (blk @ rest) = stamped_run b (tk # ticks) rest"
  by (induction blk) simp_all

lemma poll_loop_stamped:
  assumes "poll_loop v a fl ticks s = (r, s')"
    and "deref s v = Some (video_stream gh)" and "deref s a = Some (audio_stream gh)"
    and "list_all (\<lambda>e. \<not> is_submit e) tail"
  shows "\<exists>evs. trace s' = trace s @ evs \<and> stamped_run (begin_timestamp_us s) ticks (evs @ tail)"
  using assms(1-3)
proof (induction ticks arbitrary: fl s)
  case Nil
  then have "s' = s" by (cases fl) (auto split: if_splits)
  with assms(4) show ?case
    by (simp add: stamped_run_quiet)
next
  case (Cons tk ticks)
  let ?b = "begin_timestamp_us s"
  obtain ev ea where fl: "fl = (ev, ea)" by (cases fl)
  show ?case
  proof (cases "ev \<or> ea")
    case False
    with Cons.prems(1) fl have "s' = s" by auto
    with assms(4) show ?thesis
      by (simp add: stamped_run_quiet)
  next
    case True
    obtain ri s1 where it: "iteration v a tk s = (ri, s1)"
      by (cases "iteration v a tk s")
    from iteration_block [OF it] obtain blk where
      e: "trace s1 = trace s @ blk @ (if \<exists>fl. ri = Ret fl then [Usleep] else [])"
        "list_all (\<lambda>e. tick_event ?b (deref s v) (deref s a) tk e \<and> e \<noteq> Usleep) blk"
        "begin_timestamp_us s1 = ?b" "streams s1 = streams s"
      by blast
    have blk: "list_all (\<lambda>e. stamped_at ?b tk e \<and> e \<noteq> Usleep) blk"
      using e(2) Cons.prems(2,3) by (auto simp add: list_all_iff intro: tick_event_stamped_at)
    show ?thesis
    proof (cases "\<exists>fl'. ri = Ret fl'")
      case False
      with Cons.prems(1) fl True it have "s' = s1"
        by (cases ri) auto
      with e(1) False have tr: "trace s' = trace s @ blk" by simp
      have "stamped_run ?b (tk # ticks) (blk @ tail)"
        using stamped_run_block [OF blk, of ticks tail] assms(4)
        by (simp add: stamped_run_quiet)
      with tr show ?thesis by blast
    next
      case True
      then obtain fl' where r: "ri = Ret fl'" by blast
      with Cons.prems(1) fl \<open>ev \<or> ea\<close> it have rec: "poll_loop v a fl' ticks s1 = (r, s')"
        by auto
      have dv: "deref s1 v = Some (video_stream gh)"
        using deref_cong [OF e(4), of v] Cons.prems(2) by simp
      have da: "deref s1 a = Some (audio_stream gh)"
        using deref_cong [OF e(4), of a] Cons.prems(3) by simp
      from Cons.IH [OF rec dv da] obtain evs2 where
        e2: "trace s' = trace s1 @ evs2" "stamped_run ?b ticks (evs2 @ tail)"
        by (auto simp add: e(3))
      have tr: "trace s' = trace s @ (blk @ Usleep # evs2)"
        using e(1) e2(1) r by simp
      have "stamped_run ?b (tk # ticks) (blk @ (Usleep # evs2 @ tail))"
        using stamped_run_block [OF blk, of ticks "Usleep # evs2 @ tail"] e2(2) by simp
      then have "stamped_run ?b (tk # ticks) ((blk @ Usleep # evs2) @ tail)"
        by simp
      with tr show ?thesis by blast
    qed
  qed
qed

lemma after_anchor_prologue [simp]: "after_anchor (prologue cfg @ evs) = evs"
  by (simp add: after_anchor_def prologue_def)

lemma main_stamped:
  assumes "header_written cfg" and "main cfg ticks = (r, s)"
  shows "stamped_run (now_us (start_clock cfg)) ticks (after_anchor (trace s))"
proof -
  let ?s0 = "loop_start cfg"
  obtain r' s' where p: "poll_loop (Some 0) (Some 1) (True, True) ticks ?s0 = (r', s')"
    by (cases "poll_loop (Some 0) (Some 1) (True, True) ticks ?s0")
  have d: "deref ?s0 (Some 0) = Some (video_stream (AVFMT_GLOBALHEADER cfg))"
    "deref ?s0 (Some 1) = Some (audio_stream (AVFMT_GLOBALHEADER cfg))"
    by simp_all
  have q: "list_all (\<lambda>e. \<not> is_submit e) (epilogue cfg)" "list_all (\<lambda>e. \<not> is_submit e) []"
    by (simp_all add: epilogue_def)
  from poll_loop_stamped [OF p d q(1)] obtain evs where
    e: "trace s' = prologue cfg @ evs"
      "stamped_run (now_us (start_clock cfg)) ticks (evs @ epilogue cfg)"
    by auto
  from poll_loop_stamped [OF p d q(2)] e(1)
  have e': "stamped_run (now_us (start_clock cfg)) ticks evs"
    by auto
  from assms(2) p main_header_written [OF assms(1), of ticks]
  have "trace s = trace s' \<or> trace s = trace s' @ epilogue cfg"
    by (auto split: option.splits res.splits)
  with e e' show ?thesis
    by auto
qed

section \<open>A pull after an Exhausted pull\<close>

text \<open>When the file of the current counter cannot be opened the writer returns 1 and
  changes nothing but the trace. A following call that finds data under that counter,
  of at most \<open>buf_size\<close> bytes, submits exactly that data and advances the counter; it
  returns 0 unless the writer ends the process.\<close>

lemma retry_after_exhausted:
  assumes "deref s v = Some vst" and "deref s a = Some ast"
    and "v_files tk (video_filename (video_pts s)) = None"
    and "a_files tk (audio_filename (audio_frame s)) = None"
    and "v_files tk' (video_filename (video_pts s)) = Some vdata" and "length vdata \<le> buf_size"
    and "a_files tk' (audio_filename (audio_frame s)) = Some adata" and "length adata \<le> buf_size"
  shows "write_video_frame v tk s = (Ret 1, emit [Fopen (video_filename (video_pts s)) False] s)
    \<and> fst (write_video_frame v tk' (snd (write_video_frame v tk s)))
        = (if v_ret tk' < 0 then Exit 1 else Ret 0)
    \<and> map data (submitted (added (snd (write_video_frame v tk s))
          (snd (write_video_frame v tk' (snd (write_video_frame v tk s)))))) = [vdata]
    \<and> video_pts (snd (write_video_frame v tk' (snd (write_video_frame v tk s)))) = video_pts s + 1
    \<and> write_audio_frame a tk s = (Ret 1, emit [Fopen (audio_filename (audio_frame s)) False] s)
    \<and> fst (write_audio_frame a tk' (snd (write_audio_frame a tk s)))
        = (if a_write tk' < 0 then Exit 1 else Ret 0)
    \<and> map data (submitted (added (snd (write_audio_frame a tk s))
          (snd (write_audio_frame a tk' (snd (write_audio_frame a tk s)))))) = [adata]
    \<and> audio_frame (snd (write_audio_frame a tk' (snd (write_audio_frame a tk s))))
        = audio_frame s + 1"
proof -
  let ?sv = "emit [Fopen (video_filename (video_pts s)) False] s"
  let ?sa = "emit [Fopen (audio_filename (audio_frame s)) False] s"
  have v1: "write_video_frame v tk s = (Ret 1, ?sv)"
    using assms(1,3) by (rule write_video_frame_absent)
  have a1: "write_audio_frame a tk s = (Ret 1, ?sa)"
    using assms(2,4) by (rule write_audio_frame_absent)
  have v2: "fst (write_video_frame v tk' ?sv) = (if v_ret tk' < 0 then Exit 1 else Ret 0)
      \<and> map data (submitted (added ?sv (snd (write_video_frame v tk' ?sv)))) = [vdata]
      \<and> video_pts (snd (write_video_frame v tk' ?sv)) = video_pts s + 1"
    using write_video_frame_present [of ?sv v vst tk' vdata] assms(1,5,6) by simp
  have a2: "fst (write_audio_frame a tk' ?sa) = (if a_write tk' < 0 then Exit 1 else Ret 0)
      \<and> map data (submitted (added ?sa (snd (write_audio_frame a tk' ?sa)))) = [adata]
      \<and> audio_frame (snd (write_audio_frame a tk' ?sa)) = audio_frame s + 1"
    using write_audio_frame_present [of ?sa a ast tk' adata] assms(2,7,8) by simp
  show ?thesis
    using v2 a2 by (simp add: v1 a1)
qed

section \<open>Claims about the two writers\<close>

text \<open>Claim C2. The keyframe classifier is to return true exactly when the byte at offset 4
  of the payload, masked with \<open>0x0F\<close>, is 7, and to classify a payload too short to have
  that byte as non-key. The source reads \<^verbatim>\<open>buf[4]\<close> without looking at the length: for the
  three-byte file \<open>short_unit\<close>, read into a buffer whose fifth byte is \<open>0x67\<close>, the
  submitted packet of size 3 carries the key flag.\<close>

theorem short_payload_flagged_key:
  "length short_unit < 5
   \<and> write_video_frame (Some 0) short_tick (loop_start env_ok) =
       (Ret 0,
        emit [Fopen (video_filename 0) True,
              Submit AVMEDIA_TYPE_VIDEO
                \<lparr>pts = 1000000, dts = 1000000, stream_index = 0, flags = AV_PKT_FLAG_KEY,
                 size = 3, data = [0, 0, 1]\<rparr> 0]
          ((loop_start env_ok)\<lparr>video_pts := 1\<rparr>))"
proof -
  have f: "v_files short_tick (video_filename (video_pts (loop_start env_ok))) = Some short_unit"
    by (simp add: short_tick_def)
  have l: "length short_unit \<le> buf_size"
    by (simp add: short_unit_def buf_size_def)
  have key: "is_IDR_nal (fread (v_buf short_tick) short_unit)"
    by (simp add: is_IDR_nal_byte fread_def short_tick_def short_unit_def stale_sps_def)
  have p: "video_packet (video_stream True) short_tick (loop_start env_ok) short_unit =
      \<lparr>pts = 1000000, dts = 1000000, stream_index = 0, flags = AV_PKT_FLAG_KEY,
       size = 3, data = [0, 0, 1]\<rparr>"
    unfolding video_packet_def payload_fread
    by (simp add: key) (simp add: short_tick_def env_ok_def now_us_def video_stream_def short_unit_def)
  have v: "v_ret short_tick = 0" "v_write short_tick = 0"
    by (simp_all add: short_tick_def idle_tick_def)
  have d: "deref (loop_start env_ok) (Some 0) = Some (video_stream True)"
    by (simp add: env_ok_def)
  show ?thesis
    using write_video_frame_present [OF d f l]
    by (simp add: p v) (simp add: short_unit_def video_stream_def)
qed

text \<open>Claim C6. A failed submission of a video packet is to end the process with a
  non-zero status and a diagnostic. \<^verbatim>\<open>write_video_frame\<close> drops the status that
  \<^verbatim>\<open>write_frame\<close> returns and tests its local \<^verbatim>\<open>ret\<close>, which was never assigned: in
  the run below the library rejects the only video packet with status \<open>-5\<close>, nothing is
  written to the error stream, the trailer is written and \<^verbatim>\<open>main\<close> returns 0.\<close>

theorem rejected_video_packet_ignored:
  "fst (main env_ok [rejected_video_tick, idle_tick]) = Some (Ret 0)
   \<and> trace (snd (main env_ok [rejected_video_tick, idle_tick])) =
       [NewStream AVMEDIA_TYPE_VIDEO 0, NewStream AVMEDIA_TYPE_AUDIO 1, AvioOpen 0,
        WriteHeader 0, SetAnchor 1700000000000000,
        Fopen (video_filename 0) True,
        Submit AVMEDIA_TYPE_VIDEO
          \<lparr>pts = 1000000, dts = 1000000, stream_index = 0, flags = 0, size = 6,
           data = [0, 0, 0, 1, 0x41, 0x9a]\<rparr> (- 5),
        Fopen (audio_filename 0) False, Usleep,
        Fopen (video_filename 1) False, Fopen (audio_filename 0) False, Usleep,
        WriteTrailer, AvioClose, FreeContext]"
proof -
  let ?s0 = "loop_start env_ok"
  let ?p = "\<lparr>pts = 1000000, dts = 1000000, stream_index = 0, flags = 0, size = 6,
           data = [0, 0, 0, 1, 0x41, 0x9a]\<rparr> :: AVPacket"
  let ?s1 = "emit [Fopen (video_filename 0) True, Submit AVMEDIA_TYPE_VIDEO ?p (- 5)]
               (?s0\<lparr>video_pts := 1\<rparr>)"
  let ?s2 = "emit [Usleep] (emit [Fopen (audio_filename 0) False] ?s1)"
  let ?s3 = "emit [Fopen (video_filename 1) False, Fopen (audio_filename 0) False, Usleep] ?s2"
  have hw: "header_written env_ok"
    by (simp add: header_written_def env_ok_def)
  have gh: "AVFMT_GLOBALHEADER env_ok" "\<not> AVFMT_NOFILE env_ok"
    by (simp_all add: env_ok_def)
  have f: "v_files rejected_video_tick (video_filename (video_pts ?s0)) = Some slice_unit"
    by (simp add: rejected_video_tick_def)
  have l: "length slice_unit \<le> buf_size"
    by (simp add: slice_unit_def buf_size_def)
  have nokey: "\<not> is_IDR_nal (fread (v_buf rejected_video_tick) slice_unit)"
    by (simp add: is_IDR_nal_byte fread_def slice_unit_def)
  have p: "video_packet (video_stream True) rejected_video_tick ?s0 slice_unit = ?p"
    unfolding video_packet_def payload_fread
    by (simp add: nokey)
      (simp add: rejected_video_tick_def env_ok_def now_us_def video_stream_def slice_unit_def)
  have r: "v_ret rejected_video_tick = 0" "v_write rejected_video_tick = - 5"
    "a_files rejected_video_tick = no_files"
    by (simp_all add: rejected_video_tick_def idle_tick_def)
  have v1: "write_video_frame (Some 0) rejected_video_tick ?s0 = (Ret 0, ?s1)"
    using write_video_frame_present [of ?s0 "Some 0" "video_stream True" rejected_video_tick
        slice_unit] f l
    by (simp add: p r)
  have a1: "write_audio_frame (Some 1) rejected_video_tick ?s1
      = (Ret 1, emit [Fopen (audio_filename 0) False] ?s1)"
    using write_audio_frame_absent [of ?s1 "Some 1" "audio_stream True" rejected_video_tick]
    by (simp add: gh r no_files_def)
  have i1: "iteration (Some 0) (Some 1) rejected_video_tick ?s0 = (Ret (True, False), ?s2)"
    using iteration_returns [OF v1 a1] by simp
  have i2: "iteration (Some 0) (Some 1) idle_tick ?s2 = (Ret (False, False), ?s3)"
    using iteration_idle [of ?s2 "Some 0" "video_stream True" "Some 1" "audio_stream True"
        idle_tick]
    by (simp add: gh)
  have "poll_loop (Some 0) (Some 1) (True, True) [rejected_video_tick, idle_tick] ?s0
      = (Some (Ret ()), ?s3)"
    using i1 i2 by simp
  then have "main env_ok [rejected_video_tick, idle_tick] = (Some (Ret 0), emit (epilogue env_ok) ?s3)"
    using main_header_written [OF hw, of "[rejected_video_tick, idle_tick]"] by simp
  then show ?thesis
    by (simp add: epilogue_def prologue_def) (simp add: env_ok_def now_us_def)
qed

text \<open>Claim C4, as stated: a unit that exists with zero length is treated as absent
  (Exhausted, no packet, counter unchanged). It fails for the empty video file of counter 0:
  the writer returns 0, the counter becomes 1 and one packet of size 0 is submitted.\<close>

theorem empty_unit_counterexample:
  "v_files empty_video_tick (video_filename (video_pts (loop_start env_ok))) = Some []
   \<and> fst (write_video_frame (Some 0) empty_video_tick (loop_start env_ok)) = Ret 0
   \<and> video_pts (snd (write_video_frame (Some 0) empty_video_tick (loop_start env_ok))) = 1
   \<and> map size (submitted (added (loop_start env_ok)
        (snd (write_video_frame (Some 0) empty_video_tick (loop_start env_ok))))) = [0]"
proof -
  have f: "v_files empty_video_tick (video_filename (video_pts (loop_start env_ok))) = Some []"
    by (simp add: empty_video_tick_def)
  have d: "deref (loop_start env_ok) (Some 0) = Some (video_stream True)"
    by (simp add: env_ok_def)
  have r: "v_ret empty_video_tick = 0"
    by (simp add: empty_video_tick_def idle_tick_def)
  show ?thesis
    using write_video_frame_present [OF d f] f by (simp add: r)
qed

text \<open>Claim C4, amended: a file of the current counter that can be opened and is empty is
  treated as present by both writers. The call does not report Exhausted, the counter of
  the stream advances by one, and exactly one packet, of size 0, is submitted. A writer
  reports Exhausted exactly when the file of its current counter cannot be opened.\<close>

theorem empty_unit_is_submitted:
  assumes "deref s v = Some vst" and "deref s a = Some ast"
    and "v_files tk (video_filename (video_pts s)) = Some []"
    and "a_files tk (audio_filename (audio_frame s)) = Some []"
  shows "fst (write_video_frame v tk s) \<noteq> Ret 1
    \<and> video_pts (snd (write_video_frame v tk s)) = video_pts s + 1
    \<and> map size (submitted (added s (snd (write_video_frame v tk s)))) = [0]
    \<and> fst (write_audio_frame a tk s) \<noteq> Ret 1
    \<and> audio_frame (snd (write_audio_frame a tk s)) = audio_frame s + 1
    \<and> map size (submitted (added s (snd (write_audio_frame a tk s)))) = [0]
    \<and> (fst (write_video_frame v tk' s) = Ret 1)
        = (v_files tk' (video_filename (video_pts s)) = None)
    \<and> (fst (write_audio_frame a tk' s) = Ret 1)
        = (a_files tk' (audio_filename (audio_frame s)) = None)"
  using write_video_frame_present [OF assms(1,3)] write_audio_frame_present [OF assms(2,4)]
    video_exhausted_iff [OF assms(1), of tk'] audio_exhausted_iff [OF assms(2), of tk']
  by simp

theorem empty_unit_is_submitted_witness:
  "deref (loop_start env_ok) (Some 0) = Some (video_stream True)
   \<and> deref (loop_start env_ok) (Some 1) = Some (audio_stream True)
   \<and> v_files empty_both_tick (video_filename (video_pts (loop_start env_ok))) = Some []
   \<and> a_files empty_both_tick (audio_filename (audio_frame (loop_start env_ok))) = Some []
   \<and> fst (write_video_frame (Some 0) empty_both_tick (loop_start env_ok)) \<noteq> Ret 1
   \<and> video_pts (snd (write_video_frame (Some 0) empty_both_tick (loop_start env_ok))) = 1
   \<and> map size (submitted (added (loop_start env_ok)
         (snd (write_video_frame (Some 0) empty_both_tick (loop_start env_ok))))) = [0]
   \<and> fst (write_audio_frame (Some 1) empty_both_tick (loop_start env_ok)) \<noteq> Ret 1
   \<and> audio_frame (snd (write_audio_frame (Some 1) empty_both_tick (loop_start env_ok))) = 1
   \<and> map size (submitted (added (loop_start env_ok)
         (snd (write_audio_frame (Some 1) empty_both_tick (loop_start env_ok))))) = [0]
   \<and> fst (write_video_frame (Some 0) idle_tick (loop_start env_ok)) = Ret 1
   \<and> fst (write_audio_frame (Some 1) idle_tick (loop_start env_ok)) = Ret 1"
proof -
  have d: "deref (loop_start env_ok) (Some 0) = Some (video_stream True)"
    "deref (loop_start env_ok) (Some 1) = Some (audio_stream True)"
    by simp_all
  have f: "v_files empty_both_tick (video_filename (video_pts (loop_start env_ok))) = Some []"
    "a_files empty_both_tick (audio_filename (audio_frame (loop_start env_ok))) = Some []"
    by (simp_all add: empty_both_tick_def empty_video_tick_def)
  from empty_unit_is_submitted [OF d f, of idle_tick] d f show ?thesis
    by simp
qed

text \<open>Claim C5. After a pull that reported Exhausted, a pull on the same stream that finds
  data newly available under the same counter is to succeed and return that data. Both
  writers read the whole file into a buffer of \<open>buf_size\<close> bytes without comparing its
  length to that size. Below, the pull of counter 0 reports Exhausted and leaves the
  counter alone, as the claim says; then a unit of 60000 bytes arrives under counter 0, and
  the next pull of either stream overruns the buffer: no packet is submitted.\<close>

theorem oversized_unit_overruns_buffer:
  "buf_size < length big_unit
   \<and> write_video_frame (Some 0) idle_tick (loop_start env_ok)
       = (Ret 1, emit [Fopen (video_filename 0) False] (loop_start env_ok))
   \<and> v_files big_tick (video_filename 0) = Some big_unit
   \<and> write_video_frame (Some 0) big_tick
         (emit [Fopen (video_filename 0) False] (loop_start env_ok))
       = (Fault, emit [Fopen (video_filename 0) True]
                   (emit [Fopen (video_filename 0) False] (loop_start env_ok)))
   \<and> write_audio_frame (Some 1) idle_tick (loop_start env_ok)
       = (Ret 1, emit [Fopen (audio_filename 0) False] (loop_start env_ok))
   \<and> a_files big_tick (audio_filename 0) = Some big_unit
   \<and> write_audio_frame (Some 1) big_tick
         (emit [Fopen (audio_filename 0) False] (loop_start env_ok))
       = (Fault, emit [Fopen (audio_filename 0) True]
                   (emit [Fopen (audio_filename 0) False] (loop_start env_ok)))"
proof -
  let ?s0 = "loop_start env_ok"
  let ?sv = "emit [Fopen (video_filename 0) False] ?s0"
  let ?sa = "emit [Fopen (audio_filename 0) False] ?s0"
  have big: "buf_size < length big_unit"
    by (simp add: big_unit_def buf_size_def)
  have fv: "v_files big_tick (video_filename 0) = Some big_unit"
    and fa: "a_files big_tick (audio_filename 0) = Some big_unit"
    by (simp_all add: big_tick_def)
  have v1: "write_video_frame (Some 0) idle_tick ?s0 = (Ret 1, ?sv)"
    using write_video_frame_absent [of ?s0 "Some 0" "video_stream True" idle_tick] by simp
  have a1: "write_audio_frame (Some 1) idle_tick ?s0 = (Ret 1, ?sa)"
    using write_audio_frame_absent [of ?s0 "Some 1" "audio_stream True" idle_tick] by simp
  have v2: "write_video_frame (Some 0) big_tick ?sv = (Fault, emit [Fopen (video_filename 0) True] ?sv)"
    using write_video_frame_overrun [of ?sv "Some 0" "video_stream True" big_tick big_unit] fv big
    by simp
  have a2: "write_audio_frame (Some 1) big_tick ?sa = (Fault, emit [Fopen (audio_filename 0) True] ?sa)"
    using write_audio_frame_overrun [of ?sa "Some 1" "audio_stream True" big_tick big_unit] fa big
    by simp
  from big fv fa v1 a1 v2 a2 show ?thesis
    by simp
qed

section \<open>Claims about whole runs\<close>

text \<open>Claim C3, as stated: in every run exactly one header write precedes all submissions
  and exactly one trailer write follows them, also when a submission fails. It fails in the
  run below: the library rejects the audio packet, \<^verbatim>\<open>write_audio_frame\<close> calls
  \<^verbatim>\<open>exit(1)\<close>, and the trace ends with the diagnostic, without a trailer write and without
  closing the output.\<close>

theorem audio_write_error_skips_trailer:
  "fst (main env_ok [rejected_audio_tick]) = Some (Exit 1)
   \<and> trace (snd (main env_ok [rejected_audio_tick])) =
       [NewStream AVMEDIA_TYPE_VIDEO 0, NewStream AVMEDIA_TYPE_AUDIO 1, AvioOpen 0,
        WriteHeader 0, SetAnchor 1700000000000000,
        Fopen (video_filename 0) False, Fopen (audio_filename 0) True,
        Submit AVMEDIA_TYPE_AUDIO
          \<lparr>pts = 1000000, dts = 1000000, stream_index = 1, flags = 0, size = 2,
           data = [0xff, 0xf1]\<rparr> (- 5),
        Stderr ''Error while writing audio frame'']
   \<and> \<not> list_ex is_trailer (trace (snd (main env_ok [rejected_audio_tick])))"
proof -
  let ?s0 = "loop_start env_ok"
  let ?pa = "\<lparr>pts = 1000000, dts = 1000000, stream_index = 1, flags = 0, size = 2,
               data = [0xff, 0xf1]\<rparr> :: AVPacket"
  let ?s1 = "emit [Fopen (video_filename 0) False] ?s0"
  let ?s2 = "emit [Fopen (audio_filename 0) True, Submit AVMEDIA_TYPE_AUDIO ?pa (- 5),
                   Stderr ''Error while writing audio frame'']
               (?s1\<lparr>audio_frame := 1\<rparr>)"
  have r: "v_files rejected_audio_tick = no_files" "a_write rejected_audio_tick = - 5"
    by (simp_all add: rejected_audio_tick_def idle_tick_def)
  have fa: "a_files rejected_audio_tick (audio_filename (audio_frame ?s1)) = Some [0xff, 0xf1]"
    by (simp add: rejected_audio_tick_def)
  have la: "length [0xff, 0xf1 :: byte] \<le> buf_size"
    by (simp add: buf_size_def)
  have pa: "audio_packet (audio_stream True) rejected_audio_tick ?s1 [0xff, 0xf1] = ?pa"
    unfolding audio_packet_def payload_fread
    by (simp add: rejected_audio_tick_def now_us_def audio_stream_def)
  have v1: "write_video_frame (Some 0) rejected_audio_tick ?s0 = (Ret 1, ?s1)"
    using write_video_frame_absent [of ?s0 "Some 0" "video_stream True" rejected_audio_tick]
    by (simp add: r no_files_def)
  have a1: "write_audio_frame (Some 1) rejected_audio_tick ?s1 = (Exit 1, ?s2)"
    using write_audio_frame_present [of ?s1 "Some 1" "audio_stream True" rejected_audio_tick
        "[0xff, 0xf1]"] fa la
    by (simp add: pa r)
  have "iteration (Some 0) (Some 1) rejected_audio_tick ?s0 = (Exit 1, ?s2)"
    using v1 a1 by (simp add: iteration_def then_do_def)
  then have "poll_loop (Some 0) (Some 1) (True, True) [rejected_audio_tick] ?s0
      = (Some (Exit 1), ?s2)"
    by (simp del: One_nat_def)
  then have "main env_ok [rejected_audio_tick] = (Some (Exit 1), ?s2)"
    using main_header_written [of env_ok "[rejected_audio_tick]"] by simp
  then show ?thesis
    by (simp add: prologue_def now_us_def)
qed

text \<open>Claim C3, amended: in every run whose header write succeeds, exactly one header
  write occurs and it precedes every submission. When the loop ends by its condition
  (\<^verbatim>\<open>main\<close> returns 0), exactly one trailer write follows, after every submission, and the
  output is closed when the format uses a file. In every other outcome (the loop still
  running, or a writer having ended the process, as \<^verbatim>\<open>write_audio_frame\<close> does with
  \<^verbatim>\<open>exit(1)\<close> on a failed submission) no trailer write and no close has taken place.\<close>

theorem header_then_packets_then_trailer:
  assumes "header_written cfg" and "main cfg ticks = (r, s)"
  shows "header_first (trace s)
    \<and> (if r = Some (Ret 0)
        then trailer_last (trace s) \<and> list_ex (\<lambda>e. e = AvioClose) (trace s) = (\<not> AVFMT_NOFILE cfg)
        else \<not> list_ex is_trailer (trace s) \<and> \<not> list_ex (\<lambda>e. e = AvioClose) (trace s))
    \<and> (r = None \<or> r = Some (Ret 0) \<or> r = Some (Exit 1) \<or> r = Some Fault)"
proof -
  let ?b = "now_us (start_clock cfg)"
  from main_trace_shape [OF assms] obtain evs where
    tr: "trace s = prologue cfg @ evs @ (if r = Some (Ret 0) then epilogue cfg else [])"
    and le: "loop_events ?b (Some (video_stream (AVFMT_GLOBALHEADER cfg)))
          (Some (audio_stream (AVFMT_GLOBALHEADER cfg))) ticks evs"
    and r: "r = None \<or> r = Some (Ret 0) \<or> r = Some (Exit 1) \<or> r = Some Fault"
    by blast
  from loop_events_quiet [OF le]
  have q: "list_all (\<lambda>e. \<not> is_header e \<and> \<not> is_trailer e \<and> \<not> is_anchor e \<and> \<not> is_new_stream e) evs" .
  have q': "list_all (\<lambda>e. e \<noteq> AvioClose) evs"
    using le unfolding loop_events_def list_all_iff
    by (auto simp add: tick_event_def video_event_def audio_event_def)
  obtain pre where pre: "prologue cfg = pre @ [WriteHeader (write_header_ret cfg), SetAnchor ?b]"
    "list_all (\<lambda>e. \<not> is_header e \<and> \<not> is_submit e \<and> \<not> is_trailer e \<and> \<not> is_anchor e
                      \<and> \<not> is_fopen e \<and> e \<noteq> AvioClose) pre"
    using prologue_split by blast
  have pre': "list_all (\<lambda>e. \<not> is_header e \<and> \<not> is_submit e) pre"
    "list_all (\<lambda>e. \<not> is_trailer e) pre" "list_all (\<lambda>e. e \<noteq> AvioClose) pre"
    using pre(2) by (simp_all add: list_all_iff)
  have hf: "header_first (trace s)"
  proof -
    have a: "trace s = pre @ WriteHeader (write_header_ret cfg)
        # (SetAnchor ?b # evs @ (if r = Some (Ret 0) then epilogue cfg else []))"
      by (simp add: tr pre(1))
    have b: "list_all (\<lambda>e. \<not> is_header e)
        (SetAnchor ?b # evs @ (if r = Some (Ret 0) then epilogue cfg else []))"
      using q by (auto simp add: list_all_iff epilogue_def)
    show ?thesis
      unfolding a using pre'(1) b by (rule header_first_shape)
  qed
  show ?thesis
  proof (cases "r = Some (Ret 0)")
    case True
    have a: "trace s = (prologue cfg @ evs) @ WriteTrailer
        # ((if AVFMT_NOFILE cfg then [] else [AvioClose]) @ [FreeContext])"
      by (simp add: tr True epilogue_def)
    have b: "list_all (\<lambda>e. \<not> is_trailer e) (prologue cfg @ evs)"
      using q pre'(2) by (auto simp add: pre(1) list_all_iff)
    have c: "list_all (\<lambda>e. \<not> is_trailer e \<and> \<not> is_submit e)
        ((if AVFMT_NOFILE cfg then [] else [AvioClose]) @ [FreeContext])"
      by simp
    have tl: "trailer_last (trace s)"
      unfolding a using b c by (rule trailer_last_shape)
    have "list_ex (\<lambda>e. e = AvioClose) (trace s) = (\<not> AVFMT_NOFILE cfg)"
      using q' pre'(3) by (auto simp add: tr True epilogue_def pre(1) list_ex_iff list_all_iff)
    with hf tl True show ?thesis by simp
  next
    case False
    then have "trace s = prologue cfg @ evs" by (simp add: tr)
    then have "\<not> list_ex is_trailer (trace s) \<and> \<not> list_ex (\<lambda>e. e = AvioClose) (trace s)"
      using q q' pre' by (auto simp add: pre(1) list_ex_iff list_all_iff)
    with hf False r show ?thesis by simp
  qed
qed

theorem header_then_packets_then_trailer_witness:
  "header_written env_ok
   \<and> main env_ok demo_ticks = (Some (Ret 0), demo_final)
   \<and> header_first (trace demo_final)
   \<and> trailer_last (trace demo_final)
   \<and> list_ex (\<lambda>e. e = AvioClose) (trace demo_final)"
  using header_then_packets_then_trailer [of env_ok "demo_ticks" "Some (Ret 0)" demo_final]
  by (simp add: demo_run)

text \<open>Claim C7. In every run whose header write succeeds, the anchor
  \<^verbatim>\<open>begin_timestamp_us\<close> is assigned exactly once, right after that header write and before
  any file is polled or any packet submitted; it keeps that value, and both time stamps of
  every submitted packet of either stream are the clock reading its writer takes in the
  iteration that submits it, minus that one anchor.\<close>

theorem anchor_set_once:
  assumes "header_written cfg" and "main cfg ticks = (r, s)"
  shows "filter is_anchor (trace s) = [SetAnchor (now_us (start_clock cfg))]
    \<and> anchored (trace s)
    \<and> begin_timestamp_us s = now_us (start_clock cfg)
    \<and> stamped_run (now_us (start_clock cfg)) ticks (after_anchor (trace s))"
proof -
  let ?b = "now_us (start_clock cfg)"
  let ?tail = "if r = Some (Ret 0) then epilogue cfg else []"
  from main_trace_shape [OF assms] obtain evs where
    tr: "trace s = prologue cfg @ evs @ ?tail"
    and le: "loop_events ?b (Some (video_stream (AVFMT_GLOBALHEADER cfg)))
          (Some (audio_stream (AVFMT_GLOBALHEADER cfg))) ticks evs"
    and b: "begin_timestamp_us s = ?b"
    by blast
  from loop_events_quiet [OF le]
  have q: "list_all (\<lambda>e. \<not> is_header e \<and> \<not> is_trailer e \<and> \<not> is_anchor e \<and> \<not> is_new_stream e) evs" .
  obtain pre where pre: "prologue cfg = pre @ [WriteHeader (write_header_ret cfg), SetAnchor ?b]"
    "list_all (\<lambda>e. \<not> is_header e \<and> \<not> is_submit e \<and> \<not> is_trailer e \<and> \<not> is_anchor e
                      \<and> \<not> is_fopen e \<and> e \<noteq> AvioClose) pre"
    using prologue_split by blast
  have t: "list_all (\<lambda>e. \<not> is_submit e \<and> \<not> is_anchor e) ?tail"
    using epilogue_inert [of cfg] by (simp add: list_all_iff)
  have h: "0 \<le> write_header_ret cfg"
    using assms(1) by (simp add: header_written_def)
  have once: "filter is_anchor (trace s) = [SetAnchor ?b]"
  proof -
    have "filter is_anchor pre = []" "filter is_anchor evs = []" "filter is_anchor ?tail = []"
      using pre(2) q t by (simp_all add: filter_empty_conv list_all_iff)
    then show ?thesis
      by (simp add: tr pre(1))
  qed
  have placed: "anchored (trace s)"
  proof -
    have "trace s = pre @ WriteHeader (write_header_ret cfg) # SetAnchor ?b # (evs @ ?tail)"
      by (simp add: tr pre(1))
    then show ?thesis
      using anchored_shape [OF pre(2) h] by simp
  qed
  have stamped: "stamped_run ?b ticks (after_anchor (trace s))"
    using assms by (rule main_stamped)
  from once placed b stamped show ?thesis by simp
qed

theorem anchor_set_once_witness:
  "header_written env_ok
   \<and> main env_ok demo_ticks = (Some (Ret 0), demo_final)
   \<and> filter is_anchor (trace demo_final) = [SetAnchor (now_us (start_clock env_ok))]
   \<and> anchored (trace demo_final)
   \<and> begin_timestamp_us demo_final = now_us (start_clock env_ok)
   \<and> stamped_run (now_us (start_clock env_ok)) demo_ticks (after_anchor (trace demo_final))"
  using anchor_set_once [of env_ok "demo_ticks" "Some (Ret 0)" demo_final]
  by (simp add: demo_run)

text \<open>Claim C9. In every run in which both streams are allocated, the streams are
  registered once each, video first and audio second, with the indices 0 and 1; the
  streams of the context keep these indices whatever the run does afterwards, and every
  submitted video packet carries index 0, every submitted audio packet index 1.\<close>

theorem stream_indices_fixed:
  assumes "2 \<le> argc cfg" and "alloc_ok cfg" and "video_stream_ok cfg" and "audio_stream_ok cfg"
    and "main cfg ticks = (r, s)"
  shows "filter is_new_stream (trace s)
      = [NewStream AVMEDIA_TYPE_VIDEO 0, NewStream AVMEDIA_TYPE_AUDIO 1]
    \<and> map kind (streams s) = [AVMEDIA_TYPE_VIDEO, AVMEDIA_TYPE_AUDIO]
    \<and> map index (streams s) = [0, 1]
    \<and> list_all indexed (trace s)"
proof (cases "header_written cfg")
  case True
  let ?b = "now_us (start_clock cfg)"
  let ?tail = "if r = Some (Ret 0) then epilogue cfg else []"
  from main_trace_shape [OF True assms(5)] obtain evs where
    tr: "trace s = prologue cfg @ evs @ ?tail"
    and le: "loop_events ?b (Some (video_stream (AVFMT_GLOBALHEADER cfg)))
          (Some (audio_stream (AVFMT_GLOBALHEADER cfg))) ticks evs"
    and st: "streams s = [video_stream (AVFMT_GLOBALHEADER cfg), audio_stream (AVFMT_GLOBALHEADER cfg)]"
    by blast
  from loop_events_quiet [OF le]
  have q: "list_all (\<lambda>e. \<not> is_header e \<and> \<not> is_trailer e \<and> \<not> is_anchor e \<and> \<not> is_new_stream e) evs" .
  obtain pre where pre: "prologue cfg = pre @ [WriteHeader (write_header_ret cfg), SetAnchor ?b]"
    "list_all (\<lambda>e. \<not> is_header e \<and> \<not> is_submit e \<and> \<not> is_trailer e \<and> \<not> is_anchor e
                      \<and> \<not> is_fopen e \<and> e \<noteq> AvioClose) pre"
    "filter is_new_stream pre = [NewStream AVMEDIA_TYPE_VIDEO 0, NewStream AVMEDIA_TYPE_AUDIO 1]"
    using prologue_split by blast
  have t: "list_all (\<lambda>e. \<not> is_submit e \<and> \<not> is_new_stream e) ?tail"
    using epilogue_inert [of cfg] by (simp add: list_all_iff)
  have reg: "filter is_new_stream (trace s)
      = [NewStream AVMEDIA_TYPE_VIDEO 0, NewStream AVMEDIA_TYPE_AUDIO 1]"
  proof -
    have "filter is_new_stream evs = []" "filter is_new_stream ?tail = []"
      using q t by (simp_all add: filter_empty_conv list_all_iff)
    then show ?thesis
      by (simp add: tr pre(1,3))
  qed
  have idx: "list_all indexed (trace s)"
  proof -
    have "list_all indexed pre"
      using pre(2) by (simp add: list_all_iff not_submit_indexed)
    moreover have "list_all indexed evs"
      using le by (rule loop_events_indexed)
    moreover have "list_all indexed ?tail"
      using t by (simp add: list_all_iff not_submit_indexed)
    ultimately show ?thesis
      by (simp add: tr pre(1))
  qed
  from reg idx show ?thesis
    by (simp add: st video_stream_def audio_stream_def)
next
  case False
  from main_registered [OF assms(1-4) False assms(5)] obtain evs where
    tr: "trace s = [NewStream AVMEDIA_TYPE_VIDEO 0, NewStream AVMEDIA_TYPE_AUDIO 1] @ evs"
    and q: "list_all (\<lambda>e. \<not> is_new_stream e \<and> \<not> is_submit e) evs"
    and st: "streams s = [video_stream (AVFMT_GLOBALHEADER cfg), audio_stream (AVFMT_GLOBALHEADER cfg)]"
    by blast
  have "filter is_new_stream evs = []"
    using q by (simp add: filter_empty_conv list_all_iff)
  moreover have "list_all indexed evs"
    using q by (simp add: list_all_iff not_submit_indexed)
  ultimately show ?thesis
    by (simp add: tr st video_stream_def audio_stream_def)
qed

theorem stream_indices_fixed_witness:
  "2 \<le> argc env_ok \<and> alloc_ok env_ok \<and> video_stream_ok env_ok \<and> audio_stream_ok env_ok
   \<and> main env_ok demo_ticks = (Some (Ret 0), demo_final)
   \<and> filter is_new_stream (trace demo_final)
       = [NewStream AVMEDIA_TYPE_VIDEO 0, NewStream AVMEDIA_TYPE_AUDIO 1]
   \<and> map kind (streams demo_final) = [AVMEDIA_TYPE_VIDEO, AVMEDIA_TYPE_AUDIO]
   \<and> map index (streams demo_final) = [0, 1]
   \<and> list_all indexed (trace demo_final)"
  using stream_indices_fixed [of env_ok "demo_ticks" "Some (Ret 0)" demo_final]
  by (simp add: demo_run)

text \<open>Claim C8. When successive clock readings never decrease (from the reading that
  sets the anchor on, each a well-formed reading), then for each stream the presentation
  time stamps of its submitted packets, in the order of submission, never decrease: the
  stamp of the n-th is at most that of the (n+1)-th.\<close>

theorem timestamps_monotone:
  assumes "clock_monotone (start_clock cfg) ticks" and "main cfg ticks = (r, s)"
  shows "sorted (stamps AVMEDIA_TYPE_VIDEO (trace s)) \<and> sorted (stamps AVMEDIA_TYPE_AUDIO (trace s))"
proof (cases "header_written cfg")
  case False
  from main_not_started [OF False assms(2)] have "list_all preparing (trace s)" by simp
  then have "list_all (\<lambda>e. \<not> is_submit e) (trace s)"
    by (simp add: list_all_iff preparing_not_submit)
  then show ?thesis
    by (simp add: stamps_not_submit)
next
  case True
  let ?t0 = "start_clock cfg"
  obtain r' s' where p: "poll_loop (Some 0) (Some 1) (True, True) ticks (loop_start cfg) = (r', s')"
    by (cases "poll_loop (Some 0) (Some 1) (True, True) ticks (loop_start cfg)")
  have c: "clock_ok ?t0" "list_all clock_ok (readings ticks)"
    "sorted (map us_of (readings ticks))"
    "\<forall>t\<in>set (readings ticks). us_of ?t0 \<le> us_of t \<and> 0 \<le> us_of t - us_of ?t0"
    using assms(1) by (auto simp add: clock_monotone_def)
  have k: "sorted (stamps k (trace s'))" for k
    using poll_loop_sorted [OF p _ c, of k] by simp
  from assms(2) p main_header_written [OF True, of ticks]
  have "trace s = trace s' \<or> trace s = trace s' @ epilogue cfg"
    by (auto split: option.splits res.splits)
  then have "stamps k (trace s) = stamps k (trace s')" for k
    by auto
  with k show ?thesis by simp
qed

theorem timestamps_monotone_witness:
  "clock_monotone (start_clock env_ok) demo_ticks
   \<and> main env_ok demo_ticks = (Some (Ret 0), demo_final)
   \<and> stamps AVMEDIA_TYPE_VIDEO (trace demo_final) = [995000, 1040000]
   \<and> stamps AVMEDIA_TYPE_AUDIO (trace demo_final) = [1000000, 1045000]
   \<and> sorted (stamps AVMEDIA_TYPE_VIDEO (trace demo_final))
   \<and> sorted (stamps AVMEDIA_TYPE_AUDIO (trace demo_final))"
proof -
  have c: "clock_monotone (start_clock env_ok) demo_ticks"
    by (simp add: clock_monotone_def clock_ok_def us_of_def demo_ticks_def both_tick_def
        later_tick_def idle_tick_def)
  from timestamps_monotone [OF c demo_run] c show ?thesis
    by (simp add: demo_run) (simp add: demo_trace)
qed

text \<open>Claim C10. A report of Exhausted is not remembered. As long as one of the two flags
  is set the loop behaves as if both were; every iteration that returns has polled the
  video file and then the audio file of the current counters, and its two new flags say
  which of them could be opened. After such an iteration the loop ends at once when both
  pulls reported Exhausted and goes on to the next iteration otherwise, and a loop that
  has ended by its condition has ended right after an iteration in which both did.\<close>

theorem exhaustion_not_latched:
  "(ev \<or> ea \<longrightarrow> poll_loop v a (ev, ea) ticks s = poll_loop v a (True, True) ticks s)
   \<and> (deref s v = Some vst \<and> deref s a = Some ast \<and> iteration v a tk s = (Ret fl, s') \<longrightarrow>
        filter is_fopen (added s s') =
          [Fopen (video_filename (video_pts s)) (fst fl),
           Fopen (audio_filename (audio_frame s)) (snd fl)]
        \<and> fst fl = (v_files tk (video_filename (video_pts s)) \<noteq> None)
        \<and> snd fl = (a_files tk (audio_filename (audio_frame s)) \<noteq> None))
   \<and> ((ev \<or> ea) \<and> iteration v a tk s = (Ret fl, s') \<longrightarrow>
        poll_loop v a (ev, ea) (tk # rest) s =
          (if fst fl \<or> snd fl then poll_loop v a (True, True) rest s' else (Some (Ret ()), s')))
   \<and> ((ev \<or> ea) \<and> poll_loop v a (ev, ea) ticks s = (Some (Ret ()), s'') \<longrightarrow>
        (\<exists>pre tk' post s0. ticks = pre @ tk' # post
           \<and> iteration v a tk' s0 = (Ret (False, False), s'')))
   \<and> poll_loop v a (True, True) [] s = (None, s)"
proof (intro conjI impI)
  assume "ev \<or> ea"
  then show "poll_loop v a (ev, ea) ticks s = poll_loop v a (True, True) ticks s"
    by (rule poll_loop_flags)
next
  assume "deref s v = Some vst \<and> deref s a = Some ast \<and> iteration v a tk s = (Ret fl, s')"
  then have p: "filter is_fopen (added s s') =
     [Fopen (video_filename (video_pts s)) (fst fl), Fopen (audio_filename (audio_frame s)) (snd fl)]
    \<and> fst fl = (v_files tk (video_filename (video_pts s)) \<noteq> None)
    \<and> snd fl = (a_files tk (audio_filename (audio_frame s)) \<noteq> None)"
    using iteration_polls_both [of s v vst a ast tk fl s'] by blast
  from p show "filter is_fopen (added s s') =
     [Fopen (video_filename (video_pts s)) (fst fl), Fopen (audio_filename (audio_frame s)) (snd fl)]"
    by blast
  from p show "fst fl = (v_files tk (video_filename (video_pts s)) \<noteq> None)" by blast
  from p show "snd fl = (a_files tk (audio_filename (audio_frame s)) \<noteq> None)" by blast
next
  assume a: "(ev \<or> ea) \<and> iteration v a tk s = (Ret fl, s')"
  obtain ev' ea' where fl: "fl = (ev', ea')" by (cases fl)
  from a fl show "poll_loop v a (ev, ea) (tk # rest) s =
      (if fst fl \<or> snd fl then poll_loop v a (True, True) rest s' else (Some (Ret ()), s'))"
    using poll_loop_flags [of ev' ea' v a rest s'] by (cases rest) auto
next
  assume "(ev \<or> ea) \<and> poll_loop v a (ev, ea) ticks s = (Some (Ret ()), s'')"
  then show "\<exists>pre tk' post s0. ticks = pre @ tk' # post
      \<and> iteration v a tk' s0 = (Ret (False, False), s'')"
    using poll_loop_ends [of v a "(ev, ea)" ticks s s''] by simp
next
  show "poll_loop v a (True, True) [] s = (None, s)" by simp
qed

theorem exhaustion_not_latched_witness:
  "poll_loop (Some 0) (Some 1) (False, True) demo_ticks (loop_start env_ok)
     = poll_loop (Some 0) (Some 1) (True, True) demo_ticks (loop_start env_ok)
   \<and> deref (loop_start env_ok) (Some 0) = Some (video_stream True)
   \<and> deref (loop_start env_ok) (Some 1) = Some (audio_stream True)
   \<and> iteration (Some 0) (Some 1) both_tick (loop_start env_ok) = (Ret (True, True), demo_first)
   \<and> filter is_fopen (added (loop_start env_ok) demo_first)
       = [Fopen (video_filename 0) True, Fopen (audio_filename 0) True]
   \<and> poll_loop (Some 0) (Some 1) (False, True) (both_tick # [later_tick, idle_tick])
         (loop_start env_ok)
       = poll_loop (Some 0) (Some 1) (True, True) [later_tick, idle_tick] demo_first
   \<and> poll_loop (Some 0) (Some 1) (False, True) demo_ticks (loop_start env_ok)
       = (Some (Ret ()), demo_third)
   \<and> (\<exists>pre tk' post s0. demo_ticks = pre @ tk' # post
         \<and> iteration (Some 0) (Some 1) tk' s0 = (Ret (False, False), demo_third))"
proof -
  have l: "poll_loop (Some 0) (Some 1) (False, True) demo_ticks (loop_start env_ok)
      = (Some (Ret ()), demo_third)"
    using demo_first_iteration demo_second_iteration demo_third_iteration
    by (simp add: demo_ticks_def)
  have d: "deref (loop_start env_ok) (Some 0) = Some (video_stream True)"
    "deref (loop_start env_ok) (Some 1) = Some (audio_stream True)"
    by simp_all
  from exhaustion_not_latched [where ev = False and ea = True and v = "Some 0" and a = "Some 1"
      and ticks = demo_ticks and s = "loop_start env_ok" and vst = "video_stream True"
      and ast = "audio_stream True" and tk = both_tick and fl = "(True, True)"
      and s' = demo_first and rest = "[later_tick, idle_tick]" and s'' = demo_third]
    l d demo_first_iteration
  show ?thesis
    by simp
qed

text \<open>Claim C1, as stated: the time stamp written into a packet is the elapsed time in
  units of the time base of its stream, for the audio stream 1/44100. It fails for the
  first audio packet of the run below, read one second after the anchor: its stream has the
  time base 1/44100, one second is 44100 of these units, and the packet carries 1000000.\<close>

theorem audio_stamp_not_rescaled:
  "main env_ok demo_ticks = (Some (Ret 0), demo_final)
   \<and> time_base (streams demo_final ! 1) = \<lparr>num = 1, den = 44100\<rparr>
   \<and> us_of (a_clock both_tick) - us_of (start_clock env_ok) = 1000000
   \<and> in_time_base 1000000 \<lparr>num = 1, den = 44100\<rparr> = 44100
   \<and> stamps AVMEDIA_TYPE_AUDIO (trace demo_final) = [1000000, 1045000]
   \<and> hd (stamps AVMEDIA_TYPE_AUDIO (trace demo_final))
       \<noteq> in_time_base (us_of (a_clock both_tick) - us_of (start_clock env_ok))
           (time_base (streams demo_final ! 1))"
proof -
  have e: "us_of (a_clock both_tick) - us_of (start_clock env_ok) = 1000000"
    by (simp add: us_of_def both_tick_def)
  have c: "in_time_base 1000000 \<lparr>num = 1, den = 44100\<rparr> = 44100"
    by (simp add: in_time_base_def)
  have s: "stamps AVMEDIA_TYPE_AUDIO (trace demo_final) = [1000000, 1045000]"
    by (simp add: demo_trace)
  show ?thesis
    using e c s by (simp add: demo_run demo_streams)
qed

text \<open>Claim C1, amended: in every run whose header write succeeds, both time stamps of every
  submitted packet of either stream are the clock reading its writer takes in the
  iteration that submits it minus the anchor, a count of microseconds that \<^verbatim>\<open>write_frame\<close>
  passes on without rescaling. For the video stream, registered with the time base
  1/1000000, a count of microseconds is that same count of time-base units.\<close>

theorem stamps_are_elapsed_microseconds:
  assumes "header_written cfg" and "main cfg ticks = (r, s)"
  shows "stamped_run (now_us (start_clock cfg)) ticks (after_anchor (trace s))
    \<and> time_base (streams s ! 0) = \<lparr>num = 1, den = 1000000\<rparr>
    \<and> (\<forall>x. in_time_base x (time_base (streams s ! 0)) = x)"
proof -
  from main_trace_shape [OF assms] have
    st: "streams s = [video_stream (AVFMT_GLOBALHEADER cfg), audio_stream (AVFMT_GLOBALHEADER cfg)]"
    by blast
  from main_stamped [OF assms] show ?thesis
    by (simp add: st in_time_base_def)
qed

theorem stamps_are_elapsed_microseconds_witness:
  "header_written env_ok
   \<and> main env_ok demo_ticks = (Some (Ret 0), demo_final)
   \<and> stamped_run (now_us (start_clock env_ok)) demo_ticks (after_anchor (trace demo_final))
   \<and> time_base (streams demo_final ! 0) = \<lparr>num = 1, den = 1000000\<rparr>
   \<and> in_time_base 995000 (time_base (streams demo_final ! 0)) = 995000"
  using stamps_are_elapsed_microseconds [of env_ok demo_ticks "Some (Ret 0)" demo_final]
  by (simp add: demo_run in_time_base_def)

end
